theory Spec2Isabelle
  imports Main
begin

section \<open>Python strings used by \<open>main\<close>\<close>

text \<open>
  Strings are lists of ASCII characters.  The functions below are the Python
  built-ins that \<open>main\<close> in \<open>nxc/netexec.py\<close> calls on them: \<open>str.split("-")\<close>,
  \<open>str.strip()\<close>, \<open>str.lower()\<close> and \<open>int(str)\<close>.
\<close>

text \<open>\<open>s.split(c)\<close> for a one-character separator: the result is never empty,
  \<open>"".split("-") == [""]\<close>.\<close>

fun split_on :: "char \<Rightarrow> string \<Rightarrow> string list" where
  "split_on c [] = [[]]"
| "split_on c (x # xs) =
     (if x = c then [] # split_on c xs
      else (x # hd (split_on c xs)) # tl (split_on c xs))"

text \<open>Whitespace as \<open>str.strip()\<close> sees it in the ASCII range: codes 9 to 13, 28 to
  31 and the blank.\<close>

definition is_space :: "char \<Rightarrow> bool" where
  "is_space c = (let n = (of_char c :: nat) in (9 \<le> n \<and> n \<le> 13) \<or> (28 \<le> n \<and> n \<le> 32))"

definition py_strip :: "string \<Rightarrow> string" where
  "py_strip s = rev (dropWhile is_space (rev (dropWhile is_space s)))"

text \<open>Whitespace as \<open>int()\<close> sees it in an ASCII string: codes 9 to 13 and the blank
  only, so that \<open>int\<close> raises \<open>ValueError\<close> for a digit that follows the character of
  code 28.\<close>

definition is_int_space :: "char \<Rightarrow> bool" where
  "is_int_space c = (let n = (of_char c :: nat) in (9 \<le> n \<and> n \<le> 13) \<or> n = 32)"

definition int_strip :: "string \<Rightarrow> string" where
  "int_strip s = rev (dropWhile is_int_space (rev (dropWhile is_int_space s)))"

definition lower_char :: "char \<Rightarrow> char" where
  "lower_char c = (let n = (of_char c :: nat) in if 65 \<le> n \<and> n \<le> 90 then char_of (n + 32) else c)"

definition py_lower :: "string \<Rightarrow> string" where
  "py_lower s = map lower_char s"

definition is_digit :: "char \<Rightarrow> bool" where
  "is_digit c = (let n = (of_char c :: nat) in 48 \<le> n \<and> n \<le> 57)"

definition digit_val :: "char \<Rightarrow> int" where
  "digit_val c = int (of_char c) - 48"

text \<open>The digit part of an integer literal: decimal digits, with single underscores
  allowed between two digits (\<open>int("1_0") == 10\<close>).\<close>

fun digits_ok :: "string \<Rightarrow> bool" where
  "digits_ok [] = False"
| "digits_ok [c] = is_digit c"
| "digits_ok (c # d # r) =
     (is_digit c \<and> (if d = CHR ''_'' then r \<noteq> [] \<and> digits_ok r else digits_ok (d # r)))"

definition py_digits :: "string \<Rightarrow> int option" where
  "py_digits s =
     (if digits_ok s then Some (foldl (\<lambda>a c. 10 * a + digit_val c) 0 (filter is_digit s))
      else None)"

text \<open>\<open>int(s)\<close> in base 10: surrounding whitespace is dropped, one sign is allowed.
  \<open>None\<close> stands for the \<open>ValueError\<close> that \<open>int\<close> raises.\<close>

definition py_int :: "string \<Rightarrow> int option" where
  "py_int s =
     (case int_strip s of
        [] \<Rightarrow> None
      | c # r \<Rightarrow>
          if c = CHR ''-'' then map_option uminus (py_digits r)
          else if c = CHR ''+'' then py_digits r
          else py_digits (c # r))"

section \<open>Ways a run ends early\<close>

text \<open>\<open>Exit n\<close> is a call of \<open>sys.exit(n)\<close>; \<open>Uncaught e\<close> is an exception of class \<open>e\<close>
  that nothing in \<open>main\<close> catches.\<close>

datatype abort = Exit nat | Uncaught string

section \<open>Credential-id expansion (\<open>main\<close>, lines 119 to 129)\<close>

text \<open>
  \<open>args.cred_id\<close> starts as a list of strings and receives integers while the loop
  runs, so an element is either.
\<close>

datatype cred = CStr string | CInt int

text \<open>\<open>"-" in str(cred_id)\<close>: a string with a dash, or a negative integer.\<close>

fun has_dash :: "cred \<Rightarrow> bool" where
  "has_dash (CStr s) = (CHR ''-'' \<in> set s)"
| "has_dash (CInt n) = (n < 0)"

text \<open>
  The \<open>for\<close> loop walks the list by position while its body appends to the list and
  removes from it: \<open>i\<close> is the list iterator's index, \<open>xs\<close> the current list.
  \<^item> an element without a dash is passed over;
  \<^item> \<open>cred_id.split("-")\<close> on an integer raises \<open>AttributeError\<close>, outside the \<open>try\<close>;
  \<^item> unpacking into \<open>start_id, end_id\<close> needs exactly two parts, otherwise
    \<open>ValueError\<close>, outside the \<open>try\<close>;
  \<^item> inside the \<open>try\<close>, a failing \<open>int\<close> leads to \<open>exit(1)\<close>; otherwise the integers of
    \<open>range(int(start_id), int(end_id) + 1)\<close> are appended and the first element equal
    to \<open>cred_id\<close> is removed.
\<close>

function expand_loop :: "cred list \<Rightarrow> nat \<Rightarrow> abort + cred list" where
  "expand_loop xs i =
     (if length xs \<le> i then Inr xs
      else if \<not> has_dash (xs ! i) then expand_loop xs (Suc i)
      else
        (case xs ! i of
           CInt n \<Rightarrow> Inl (Uncaught ''AttributeError'')
         | CStr s \<Rightarrow>
             (case split_on (CHR ''-'') s of
                [start_id, end_id] \<Rightarrow>
                  (case py_int start_id of
                     None \<Rightarrow> Inl (Exit 1)
                   | Some a \<Rightarrow>
                       (case py_int end_id of
                          None \<Rightarrow> Inl (Exit 1)
                        | Some b \<Rightarrow>
                            expand_loop (remove1 (xs ! i) (xs @ map CInt [a..b])) (Suc i)))
              | _ \<Rightarrow> Inl (Uncaught ''ValueError''))))"
  by pat_completeness auto

text \<open>A string with a dash: the only elements the loop ever rewrites.\<close>

fun dash_str :: "cred \<Rightarrow> bool" where
  "dash_str (CStr s) = (CHR ''-'' \<in> set s)"
| "dash_str (CInt n) = False"

text \<open>
  The list grows while it is walked, so the loop does not end for the usual reason.
  It ends because every rewriting step removes one string with a dash and appends
  integers only, and every other step moves the index towards the end of an
  unchanged list.
\<close>

termination expand_loop
proof (relation "measures [\<lambda>(xs, i). length (filter dash_str xs), \<lambda>(xs, i). length xs - i]",
    goal_cases)
  case 1
  show ?case by simp
next
  case (2 xs i)
  then show ?case by auto
next
  case (3 xs i s p q0 q q1 a b)
  have less: "length (filter P (remove1 x ys)) < length (filter P ys)"
    if "x \<in> set ys" "P x" for P and x :: cred and ys
    using that by (induction ys) auto
  have ints: "filter dash_str (map CInt ns) = []" for ns
    by (induction ns) auto
  have mem: "CStr s \<in> set xs"
    using 3 by (metis not_le_imp_less nth_mem)
  have "remove1 (CStr s) (xs @ map CInt [a..b]) = remove1 (CStr s) xs @ map CInt [a..b]"
    using mem by (simp add: remove1_append)
  moreover have "length (filter dash_str (remove1 (CStr s) xs)) < length (filter dash_str xs)"
    using mem 3 by (intro less) auto
  ultimately show ?case
    using 3 by (simp add: ints)
qed

text \<open>\<open>if hasattr(args, "cred_id") and args.cred_id:\<close> an absent or empty list is left
  alone; otherwise the loop starts at the first element.\<close>

definition expand_cred_ids :: "cred list \<Rightarrow> abort + cred list" where
  "expand_cred_ids xs = (if xs = [] then Inr xs else expand_loop xs 0)"

text \<open>
  Vocabulary for the statements about the loop.  \<open>range_bounds s\<close> are the two integer
  endpoints of \<open>s\<close> when \<open>s\<close> splits at the dash into exactly two parts that \<open>int\<close>
  accepts; \<open>range_ints\<close> are the integers such an expression stands for, none when
  the first endpoint is larger than the second.
\<close>

definition range_bounds :: "string \<Rightarrow> (int \<times> int) option" where
  "range_bounds s =
     (case split_on (CHR ''-'') s of
        [start_id, end_id] \<Rightarrow>
          (case py_int start_id of
             None \<Rightarrow> None
           | Some a \<Rightarrow> (case py_int end_id of None \<Rightarrow> None | Some b \<Rightarrow> Some (a, b)))
      | _ \<Rightarrow> None)"

fun well_formed :: "cred \<Rightarrow> bool" where
  "well_formed (CStr s) = (CHR ''-'' \<in> set s \<and> range_bounds s \<noteq> None)"
| "well_formed (CInt n) = False"

fun range_ints :: "cred \<Rightarrow> cred list" where
  "range_ints (CStr s) =
     (case range_bounds s of Some (a, b) \<Rightarrow> map CInt [a..b] | None \<Rightarrow> [])"
| "range_ints (CInt n) = []"

text \<open>No element with a dash is directly followed by another one.\<close>

fun no_adjacent :: "cred list \<Rightarrow> bool" where
  "no_adjacent (x # y # r) = (\<not> (has_dash x \<and> has_dash y) \<and> no_adjacent (y # r))"
| "no_adjacent _ = True"

section \<open>The run configuration, the modules and the outside world\<close>

text \<open>
  \<open>args\<close> is the namespace returned by \<open>gen_cli_args()\<close>, with the attributes that
  \<open>main\<close> and \<open>start_run\<close> read or assign.  A string option that is \<open>None\<close> or empty
  is false in a Python condition, and so is an empty list, the port \<open>None\<close> and the
  port \<open>0\<close>.
\<close>

record args =
  protocol :: "string option"
  key_file :: "string option"
  password :: "string list"
  use_kcache :: bool
  cred_id :: "cred list"
  target :: "string list"
  module :: "string list"
  list_modules :: bool
  show_module_options :: bool
  server :: string
  server_port :: "int option"
  server_host :: string
  ntds :: bool
  userntds :: "string option"
  threads :: int
  no_progress :: bool

definition truthy :: "string option \<Rightarrow> bool" where
  "truthy v = (case v of None \<Rightarrow> False | Some s \<Rightarrow> s \<noteq> [])"

definition port_set :: "int option \<Rightarrow> bool" where
  "port_set v = (case v of None \<Rightarrow> False | Some n \<Rightarrow> n \<noteq> 0)"

text \<open>
  A loaded module, as far as \<open>main\<close> looks at it: two flags, the presence of the two
  hooks (\<open>hasattr(module, "on_request")\<close>, \<open>hasattr(module, "has_response")\<close>) and
  the attribute \<open>required_server\<close>, \<open>None\<close> when the module has none.
\<close>

record nxc_module =
  mod_name :: string
  opsec_safe :: bool
  multiple_hosts :: bool
  on_request :: bool
  has_response :: bool
  required_server :: "string option"

text \<open>The persistent store: one database per protocol.\<close>

datatype db = Db string

text \<open>What a protocol object does when a worker calls it on a target: it returns, or
  it raises an exception of some class.\<close>

datatype handler_result = Returned | Raised string

text \<open>How an attempt to bring up a module server ends: the constructor
  (\<open>Context\<close>, \<open>NXCHTTPServer\<close>) raises, or \<open>start()\<close> raises, or the listener is up.\<close>

datatype srv_result = SrvStarted | SrvConstructRaises | SrvStartRaises

text \<open>The operator's stop signal: none, or a \<open>KeyboardInterrupt\<close> that reaches the
  main thread once it has made that many submissions.\<close>

datatype interrupt = NoInterrupt | InterruptAfter nat

text \<open>
  Everything \<open>main\<close> takes from outside \<open>nxc/netexec.py\<close>: the environment variable,
  the file system and the parsers of \<open>nxc.parsers\<close> and \<open>nxc.helpers.misc\<close>, the
  protocol and module loaders, the \<open>ignore_opsec\<close> setting, the lines the operator
  types, the fate of the \<open>k\<close>-th server attempt, the protocol object and the stop
  signal.  \<open>files p\<close> is the list of lines of the regular file at path \<open>p\<close>, \<open>None\<close>
  when there is none.
\<close>

record env =
  krb5ccname :: "string option"
  files :: "string \<Rightarrow> string list option"
  identify_target_file :: "string \<Rightarrow> string"
  parse_nmap_xml :: "string \<Rightarrow> string \<Rightarrow> string list"
  parse_nessus_file :: "string \<Rightarrow> string \<Rightarrow> string list"
  parse_targets :: "string \<Rightarrow> string list"
  known_protocol :: "string \<Rightarrow> bool"
  modules :: "string \<Rightarrow> nxc_module option"
  ignore_opsec :: bool
  stdin :: "string list"
  server_result :: "nat \<Rightarrow> srv_result"
  protocol_obj :: "args \<Rightarrow> db \<Rightarrow> string \<Rightarrow> handler_result"
  interrupt :: interrupt

section \<open>Building the target list (\<open>main\<close>, lines 131 to 144)\<close>

text \<open>The inner loop over the lines of a plain target file.\<close>

fun extend_from_lines :: "env \<Rightarrow> string list \<Rightarrow> string list \<Rightarrow> string list" where
  "extend_from_lines e [] targets = targets"
| "extend_from_lines e (target_entry # rest) targets =
     extend_from_lines e rest (targets @ parse_targets e (py_strip target_entry))"

text \<open>The outer loop over \<open>args.target\<close>; \<open>targets\<close> is the list being extended.\<close>

fun build_targets :: "env \<Rightarrow> string \<Rightarrow> string list \<Rightarrow> string list \<Rightarrow> string list" where
  "build_targets e proto [] targets = targets"
| "build_targets e proto (t # rest) targets =
     build_targets e proto rest
       (case files e t of
          Some lines \<Rightarrow>
            (if identify_target_file e t = ''nmap'' then targets @ parse_nmap_xml e t proto
             else if identify_target_file e t = ''nessus'' then targets @ parse_nessus_file e t proto
             else extend_from_lines e lines targets)
        | None \<Rightarrow> targets @ parse_targets e t)"

text \<open>What one entry of \<open>args.target\<close> contributes, for the statements below.\<close>

definition entries_of :: "env \<Rightarrow> string \<Rightarrow> string \<Rightarrow> string list" where
  "entries_of e proto t =
     (case files e t of
        Some lines \<Rightarrow>
          (if identify_target_file e t = ''nmap'' then parse_nmap_xml e t proto
           else if identify_target_file e t = ''nessus'' then parse_nessus_file e t proto
           else concat (map (\<lambda>l. parse_targets e (py_strip l)) lines))
      | None \<Rightarrow> parse_targets e t)"

section \<open>Events of a run\<close>

datatype prompt = OpsecPrompt string | MultiHostPrompt string | NtdsPrompt

text \<open>
  The observable steps of a run, in the order \<open>main\<close> takes them:
  \<^item> \<open>EvPrompt\<close>, \<open>EvAnswer\<close>: a call of \<open>input\<close> shows its question, then returns a line;
  \<^item> \<open>EvServerStart h host port kind\<close>: \<open>module_server.start()\<close> returned for the
    server object \<open>h\<close>; \<open>EvServerError m\<close>: the error logged for module \<open>m\<close>;
  \<^item> \<open>EvStartRun\<close>: \<open>start_run\<close> is entered; \<open>EvProgress\<close>: the \<open>Progress\<close> display is
    opened; \<open>EvPool n\<close>: \<open>ThreadPoolExecutor(max_workers=n)\<close>; \<open>EvAddTask total\<close>:
    \<open>progress.add_task\<close>; \<open>EvSubmit\<close>: \<open>executor.submit(protocol_obj, args, db, target)\<close>;
    \<open>EvUpdate k\<close>: \<open>progress.update(tasks, completed=k)\<close>;
  \<^item> \<open>EvAllDone\<close>: the \<open>with\<close> block of the executor is left, which waits for every
    submitted unit; the list gives each unit with the way its call ended (an
    exception stays in the unit's future, which nothing reads);
  \<^item> \<open>EvServerShutdown h\<close>: \<open>module_server.shutdown()\<close>; \<open>EvDispose\<close>:
    \<open>db_engine.dispose()\<close>.
\<close>

datatype event =
    EvPrompt prompt
  | EvAnswer string
  | EvServerStart nat string int string
  | EvServerError string
  | EvStartRun
  | EvProgress
  | EvPool int
  | EvAddTask nat
  | EvSubmit args db string
  | EvUpdate nat
  | EvAllDone "(string \<times> handler_result) list"
  | EvServerShutdown nat
  | EvDispose

fun dispatch_event :: "event \<Rightarrow> bool" where
  "dispatch_event EvStartRun = True"
| "dispatch_event EvProgress = True"
| "dispatch_event (EvPool n) = True"
| "dispatch_event (EvAddTask n) = True"
| "dispatch_event (EvSubmit a d t) = True"
| "dispatch_event (EvUpdate k) = True"
| "dispatch_event (EvAllDone r) = True"
| "dispatch_event _ = False"

fun progress_event :: "event \<Rightarrow> bool" where
  "progress_event EvProgress = True"
| "progress_event (EvAddTask n) = True"
| "progress_event (EvUpdate k) = True"
| "progress_event _ = False"

fun submit_event :: "event \<Rightarrow> bool" where
  "submit_event (EvSubmit a d t) = True"
| "submit_event _ = False"

fun start_event :: "event \<Rightarrow> bool" where
  "start_event (EvServerStart h host port kind) = True"
| "start_event _ = False"

text \<open>The answers \<open>main\<close> takes for a yes: \<open>ans.lower() in ["y", "yes", ""]\<close>.\<close>

definition confirmed :: "string \<Rightarrow> bool" where
  "confirmed ans = (py_lower ans \<in> set [''y'', ''yes'', []])"

fun declined :: "event \<Rightarrow> bool" where
  "declined (EvAnswer ans) = (\<not> confirmed ans)"
| "declined _ = False"

section \<open>The dispatch engine (\<open>start_run\<close>, lines 55 to 74)\<close>

text \<open>\<open>[executor.submit(protocol_obj, args, db, target) for target in targets]\<close>\<close>

fun submit_all :: "args \<Rightarrow> db \<Rightarrow> string list \<Rightarrow> event list" where
  "submit_all a d [] = []"
| "submit_all a d (t # ts) = EvSubmit a d t # submit_all a d ts"

text \<open>\<open>for _ in as_completed(futures): current += 1; progress.update(...)\<close>, with the
  number of futures still to come and the counter \<open>current\<close>.\<close>

fun progress_loop :: "nat \<Rightarrow> nat \<Rightarrow> event list" where
  "progress_loop 0 current = []"
| "progress_loop (Suc n) current = EvUpdate (current + 1) # progress_loop n (current + 1)"

text \<open>Each submitted unit is one call of the protocol object; its end is recorded.\<close>

definition units_done :: "env \<Rightarrow> args \<Rightarrow> db \<Rightarrow> string list \<Rightarrow> (string \<times> handler_result) list" where
  "units_done e a d ts = map (\<lambda>t. (t, protocol_obj e a d t)) ts"

text \<open>
  \<open>start_run\<close> gives its events and how it ends: \<open>Inr ()\<close> when it returns, \<open>Inl c\<close> when
  an exception of class \<open>c\<close> leaves it.  \<open>ThreadPoolExecutor\<close> raises \<open>ValueError\<close> for
  \<open>max_workers \<le> 0\<close>.  A \<open>KeyboardInterrupt\<close> cuts the submissions short.
\<close>

definition start_run :: "env \<Rightarrow> args \<Rightarrow> db \<Rightarrow> string list \<Rightarrow> event list \<times> (string + unit)" where
  "start_run e a d targets =
     (if no_progress a \<or> length targets = 1 then
        (if threads a + 1 \<le> 0 then ([EvStartRun], Inl ''ValueError'')
         else
           (case interrupt e of
              InterruptAfter k \<Rightarrow>
                ([EvStartRun, EvPool (threads a + 1)] @ submit_all a d (take k targets),
                 Inl ''KeyboardInterrupt'')
            | NoInterrupt \<Rightarrow>
                ([EvStartRun, EvPool (threads a + 1)] @ submit_all a d targets
                   @ [EvAllDone (units_done e a d targets)],
                 Inr ())))
      else
        (if threads a + 1 \<le> 0 then ([EvStartRun, EvProgress], Inl ''ValueError'')
         else
           (case interrupt e of
              InterruptAfter k \<Rightarrow>
                ([EvStartRun, EvProgress, EvPool (threads a + 1), EvAddTask (length targets)]
                   @ submit_all a d (take k targets),
                 Inl ''KeyboardInterrupt'')
            | NoInterrupt \<Rightarrow>
                ([EvStartRun, EvProgress, EvPool (threads a + 1), EvAddTask (length targets)]
                   @ submit_all a d targets
                   @ progress_loop (length targets) 0
                   @ [EvAllDone (units_done e a d targets)],
                 Inr ()))))"

section \<open>Loading modules (\<open>main\<close>, lines 190 to 253)\<close>

text \<open>
  The variables of \<open>main\<close> that the module loop reads and assigns: \<open>args\<close> (its
  \<open>server\<close> and \<open>server_port\<close> are assigned), \<open>module_server\<close>, the attributes \<open>server\<close>
  and \<open>module\<close> of the protocol object, the lines not yet read from the terminal,
  the number of server objects attempted so far (the next one gets this number as
  its name) and the events so far.
\<close>

record setup_state =
  cfg :: args
  module_server :: "nat option"
  proto_server :: "nat option"
  proto_modules :: "nxc_module list"
  pending_input :: "string list"
  attempts :: nat
  trace :: "event list"

text \<open>A step before dispatch either goes on with a new state or ends the run, with the
  events up to that point.\<close>

type_synonym 'a run = "(abort \<times> event list) + 'a"

text \<open>
  \<open>ans = input(...); if ans.lower() not in ["y", "yes", ""]: exit(1)\<close>.  With nothing
  left to read, \<open>input\<close> raises \<open>EOFError\<close>.
\<close>

definition ask :: "prompt \<Rightarrow> setup_state \<Rightarrow> setup_state run" where
  "ask q st =
     (case pending_input st of
        [] \<Rightarrow> Inl (Uncaught ''EOFError'', trace st @ [EvPrompt q])
      | ans # rest \<Rightarrow>
          (if confirmed ans
           then Inr (st\<lparr>pending_input := rest, trace := trace st @ [EvPrompt q, EvAnswer ans]\<rparr>)
           else Inl (Exit 1, trace st @ [EvPrompt q, EvAnswer ans])))"

text \<open>Lines 200 to 212.\<close>

definition opsec_gate :: "env \<Rightarrow> nxc_module \<Rightarrow> setup_state \<Rightarrow> setup_state run" where
  "opsec_gate e m st =
     (if \<not> opsec_safe m then
        (if ignore_opsec e then Inr st else ask (OpsecPrompt (mod_name m)) st)
      else Inr st)"

text \<open>Lines 214 to 222, with the length of \<open>targets\<close>.\<close>

definition multi_host_gate :: "nat \<Rightarrow> nxc_module \<Rightarrow> setup_state \<Rightarrow> setup_state run" where
  "multi_host_gate n m st =
     (if \<not> multiple_hosts m \<and> 1 < n then ask (MultiHostPrompt (mod_name m)) st else Inr st)"

text \<open>Line 117.\<close>

definition server_port_dict :: "string \<Rightarrow> int option" where
  "server_port_dict = [''http'' \<mapsto> 80, ''https'' \<mapsto> 443, ''smb'' \<mapsto> 445]"

definition needs_server :: "nxc_module \<Rightarrow> bool" where
  "needs_server m = (on_request m \<or> has_response m)"

text \<open>Lines 225 to 226: a module with \<open>required_server\<close> overwrites \<open>args.server\<close>.\<close>

definition force_kind :: "nxc_module \<Rightarrow> args \<Rightarrow> args" where
  "force_kind m a = (case required_server m of Some k \<Rightarrow> a\<lparr>server := k\<rparr> | None \<Rightarrow> a)"

text \<open>Lines 228 to 229: a missing key of the table is a \<open>KeyError\<close>, outside the \<open>try\<close>.\<close>

definition resolve_port :: "args \<Rightarrow> args option" where
  "resolve_port a =
     (if \<not> port_set (server_port a)
      then (case server_port_dict (server a) of
              None \<Rightarrow> None
            | Some p \<Rightarrow> Some (a\<lparr>server_port := Some p\<rparr>))
      else Some a)"

text \<open>
  Lines 231 to 245.  \<open>module_server\<close> is assigned when the constructor returns,
  \<open>protocol_object.server\<close> when \<open>start()\<close> returns; an exception of either is caught
  and logged.  The port passed on is \<open>args.server_port\<close>, set at this point.
\<close>

definition try_server :: "env \<Rightarrow> nxc_module \<Rightarrow> setup_state \<Rightarrow> setup_state" where
  "try_server e m st =
     (let h = attempts st; st1 = st\<lparr>attempts := Suc h\<rparr> in
      case server_result e h of
        SrvConstructRaises \<Rightarrow> st1\<lparr>trace := trace st @ [EvServerError (mod_name m)]\<rparr>
      | SrvStartRaises \<Rightarrow>
          st1\<lparr>module_server := Some h, trace := trace st @ [EvServerError (mod_name m)]\<rparr>
      | SrvStarted \<Rightarrow>
          st1\<lparr>module_server := Some h, proto_server := Some h,
              trace := trace st @
                [EvServerStart h (server_host (cfg st))
                   (case server_port (cfg st) of Some p \<Rightarrow> p | None \<Rightarrow> 0) (server (cfg st))]\<rparr>)"

text \<open>Lines 224 to 245.\<close>

definition server_step :: "env \<Rightarrow> nxc_module \<Rightarrow> setup_state \<Rightarrow> setup_state run" where
  "server_step e m st =
     (if needs_server m then
        (case resolve_port (force_kind m (cfg st)) of
           None \<Rightarrow> Inl (Uncaught ''KeyError'', trace st)
         | Some a \<Rightarrow> Inr (try_server e m (st\<lparr>cfg := a\<rparr>)))
      else Inr st)"

text \<open>The body of the loop for one lower-cased name \<open>m\<close>, with the length of
  \<open>targets\<close>; the last step appends the module to \<open>protocol_object.module\<close>.\<close>

definition load_module :: "env \<Rightarrow> nat \<Rightarrow> string \<Rightarrow> setup_state \<Rightarrow> setup_state run" where
  "load_module e n m st =
     (case modules e m of
        None \<Rightarrow> Inl (Exit 1, trace st)
      | Some md \<Rightarrow>
          (case opsec_gate e md st of
             Inl x \<Rightarrow> Inl x
           | Inr st1 \<Rightarrow>
               (case multi_host_gate n md st1 of
                  Inl x \<Rightarrow> Inl x
                | Inr st2 \<Rightarrow>
                    (case server_step e md st2 of
                       Inl x \<Rightarrow> Inl x
                     | Inr st3 \<Rightarrow> Inr (st3\<lparr>proto_modules := proto_modules st3 @ [md]\<rparr>)))))"

fun load_modules :: "env \<Rightarrow> nat \<Rightarrow> string list \<Rightarrow> setup_state \<Rightarrow> setup_state run" where
  "load_modules e n [] st = Inr st"
| "load_modules e n (m # ms) st =
     (case load_module e n m st of Inl x \<Rightarrow> Inl x | Inr st' \<Rightarrow> load_modules e n ms st')"

section \<open>The whole of \<open>main\<close>\<close>

text \<open>Lines 255 to 263.\<close>

definition ntds_gate :: "setup_state \<Rightarrow> setup_state run" where
  "ntds_gate st =
     (if ntds (cfg st) \<and> \<not> truthy (userntds (cfg st)) then ask NtdsPrompt st else Inr st)"

text \<open>
  Lines 265 to 272.  \<open>start_run\<close> runs inside \<open>try\<close>; the \<open>finally\<close> block shuts down
  \<open>module_server\<close> if it is set and disposes of the database engine.  A
  \<open>KeyboardInterrupt\<close> is caught; any other exception goes on after the \<open>finally\<close>
  block.  The result of \<open>main\<close> is \<open>None\<close> when it returns and \<open>Some x\<close> when it
  ends by \<open>x\<close>, together with the events of the run.
\<close>

definition teardown :: "setup_state \<Rightarrow> event list" where
  "teardown st =
     (case module_server st of Some h \<Rightarrow> [EvServerShutdown h] | None \<Rightarrow> []) @ [EvDispose]"

definition dispatch :: "env \<Rightarrow> db \<Rightarrow> string list \<Rightarrow> setup_state \<Rightarrow> abort option \<times> event list" where
  "dispatch e d targets st =
     (case start_run e (cfg st) d targets of
        (evs, Inr u) \<Rightarrow> (None, trace st @ evs @ teardown st)
      | (evs, Inl c) \<Rightarrow>
          (if c = ''KeyboardInterrupt'' then None else Some (Uncaught c),
           trace st @ evs @ teardown st))"

text \<open>
  Lines 101 to 189, up to the module loop: the checks on the protocol, the
  credential ids, the targets, the look-up of the protocol (a \<open>KeyError\<close> for a name
  the loader does not have) and the two listing modes.  \<open>Inr\<close> carries the assigned
  \<open>args\<close>, the protocol name and \<open>targets\<close>.  Logging, the obfuscation switches and
  the creation of the database engine are left out.
\<close>

definition prepare :: "env \<Rightarrow> args \<Rightarrow> (args \<times> string \<times> string list) run" where
  "prepare e a =
     (case protocol a of
        None \<Rightarrow> Inl (Exit 1, [])
      | Some proto \<Rightarrow>
          if proto = [] then Inl (Exit 1, [])
          else if proto = ''ssh'' \<and> truthy (key_file a) \<and> password a = [] then Inl (Exit 1, [])
          else if use_kcache a \<and> \<not> truthy (krb5ccname e) then Inl (Exit 1, [])
          else
            (case expand_cred_ids (cred_id a) of
               Inl x \<Rightarrow> Inl (x, [])
             | Inr ids \<Rightarrow>
                 if \<not> known_protocol e proto then Inl (Uncaught ''KeyError'', [])
                 else if list_modules a then Inl (Exit 0, [])
                 else if module a \<noteq> [] \<and> show_module_options a then
                   (if \<forall>m \<in> set (module a). modules e m \<noteq> None then Inl (Exit 0, [])
                    else Inl (Uncaught ''KeyError'', []))
                 else Inr (a\<lparr>cred_id := ids\<rparr>, proto, build_targets e proto (target a) [])))"

definition initial :: "env \<Rightarrow> args \<Rightarrow> setup_state" where
  "initial e a =
     \<lparr>cfg = a, module_server = None, proto_server = None, proto_modules = [],
      pending_input = stdin e, attempts = 0, trace = []\<rparr>"

definition main :: "env \<Rightarrow> args \<Rightarrow> abort option \<times> event list" where
  "main e a =
     (case prepare e a of
        Inl (x, tr) \<Rightarrow> (Some x, tr)
      | Inr (a1, proto, targets) \<Rightarrow>
          (case load_modules e (length targets) (map py_lower (module a1)) (initial e a1) of
             Inl (x, tr) \<Rightarrow> (Some x, tr)
           | Inr st \<Rightarrow>
               (case ntds_gate st of
                  Inl (x, tr) \<Rightarrow> (Some x, tr)
                | Inr st' \<Rightarrow> dispatch e (Db proto) targets st')))"

text \<open>The exit status of the process: \<open>0\<close> when \<open>main\<close> returns, the argument of
  \<open>sys.exit\<close>, and \<open>1\<close> for an exception that nothing catches.\<close>

fun exit_status :: "abort option \<Rightarrow> nat" where
  "exit_status None = 0"
| "exit_status (Some (Exit n)) = n"
| "exit_status (Some (Uncaught c)) = 1"

section \<open>Vocabulary for the statements\<close>

fun pool_event :: "event \<Rightarrow> bool" where
  "pool_event (EvPool n) = True"
| "pool_event _ = False"

fun shutdown_event :: "event \<Rightarrow> bool" where
  "shutdown_event (EvServerShutdown h) = True"
| "shutdown_event _ = False"

fun started :: "nat \<Rightarrow> event \<Rightarrow> bool" where
  "started h (EvServerStart h' host port kind) = (h = h')"
| "started h _ = False"


text \<open>A name that the loader resolves to a module with one of the two hooks.\<close>

definition server_name :: "env \<Rightarrow> string \<Rightarrow> bool" where
  "server_name e m = (case modules e m of Some md \<Rightarrow> needs_server md | None \<Rightarrow> False)"

text \<open>
  An event of a question that went well: the question itself, or an answer that
  counts as a yes.
\<close>

fun asked :: "event \<Rightarrow> bool" where
  "asked (EvPrompt q) = True"
| "asked (EvAnswer ans) = confirmed ans"
| "asked _ = False"

text \<open>A trace with no declined answer, no event of the dispatch and no shutdown: what
  the trace looks like while the modules are loaded.\<close>

definition clean :: "event list \<Rightarrow> bool" where
  "clean tr = (\<forall>ev \<in> set tr. \<not> declined ev \<and> \<not> dispatch_event ev \<and> \<not> shutdown_event ev)"

text \<open>
  While the modules are loaded: at most one listener has been started, and a
  listener that has been started is the one \<open>module_server\<close> names.  \<open>no_server\<close>: no
  listener has been started yet.
\<close>

definition one_server :: "setup_state \<Rightarrow> bool" where
  "one_server st =
     (clean (trace st) \<and> length (filter start_event (trace st)) \<le> 1 \<and>
      (\<forall>ev \<in> set (trace st). \<forall>h. started h ev \<longrightarrow> module_server st = Some h))"

definition no_server :: "setup_state \<Rightarrow> bool" where
  "no_server st = (clean (trace st) \<and> filter start_event (trace st) = [])"

text \<open>
  What the three confirmation steps have in common.  When such a step goes on, it
  has only read input and added events of questions that went well; when it ends
  the run, it has added neither an event of the dispatch nor a shutdown, the exit
  status is 1, and after a declined answer the run ends by \<open>exit(1)\<close>.
\<close>

definition gate_like :: "(setup_state \<Rightarrow> setup_state run) \<Rightarrow> bool" where
  "gate_like f =
     (\<forall>st. (\<forall>st'. f st = Inr st' \<longrightarrow>
              (\<exists>evs. st' = st\<lparr>pending_input := pending_input st', trace := trace st @ evs\<rparr> \<and>
                 (\<forall>ev \<in> set evs. asked ev))) \<and>
           (\<forall>x tr. f st = Inl (x, tr) \<longrightarrow>
              (\<exists>evs. tr = trace st @ evs \<and>
                 (\<forall>ev \<in> set evs. \<not> dispatch_event ev \<and> \<not> shutdown_event ev) \<and>
                 exit_status (Some x) = 1 \<and> ((\<exists>ev \<in> set evs. declined ev) \<longrightarrow> x = Exit 1))))"

section \<open>Concrete runs\<close>

text \<open>
  Modelled from the spec: \<open>parse_targets\<close> of \<open>nxc.parsers.ip\<close> and the module loader
  are not part of \<open>nxc/netexec.py\<close>.  In the runs below no path names a file, a
  literal address parses to itself (the spec's scenario for three literal
  addresses), the loader knows the module \<open>web\<close>, which has the hook \<open>on_request\<close>,
  every server comes up, the operator types nothing, and the protocol object
  raises on the host \<open>10.0.0.2\<close> and returns on every other one.
\<close>

definition web_module :: nxc_module where
  "web_module =
     \<lparr>mod_name = ''web'', opsec_safe = True, multiple_hosts = True,
      on_request = True, has_response = False, required_server = None\<rparr>"

definition example_env :: env where
  "example_env =
     \<lparr>krb5ccname = None,
      files = (\<lambda>p. None),
      identify_target_file = (\<lambda>p. []),
      parse_nmap_xml = (\<lambda>p proto. []),
      parse_nessus_file = (\<lambda>p proto. []),
      parse_targets = (\<lambda>t. [t]),
      known_protocol = (\<lambda>p. True),
      modules = [''web'' \<mapsto> web_module],
      ignore_opsec = False,
      stdin = [],
      server_result = (\<lambda>k. SrvStarted),
      protocol_obj = (\<lambda>a d t. if t = ''10.0.0.2'' then Raised ''OSError'' else Returned),
      interrupt = NoInterrupt\<rparr>"

definition example_args :: args where
  "example_args =
     \<lparr>protocol = Some ''smb'', key_file = None, password = [], use_kcache = False,
      cred_id = [], target = [''10.0.0.1'', ''10.0.0.1'', ''10.0.0.2''], module = [],
      list_modules = False, show_module_options = False, server = ''https'',
      server_port = None, server_host = ''0.0.0.0'', ntds = False, userntds = None,
      threads = 100, no_progress = False\<rparr>"

text \<open>
  Further runs: a module that is neither opsec safe nor fit for several hosts, an
  operator who answers \<open>n\<close>, the width \<open>-1\<close>, a stop signal after the first
  submission, a module that forces the server kind \<open>smb\<close>, one that forces \<open>http\<close>, a loader that knows
  these two, servers whose \<open>start()\<close> raises, and the two states in which the
  server step leaves the first run and the one with failing servers.
\<close>

definition negative_width_args :: args where
  "negative_width_args = example_args\<lparr>threads := - 1\<rparr>"

definition loud_module :: nxc_module where
  "loud_module =
     \<lparr>mod_name = ''loud'', opsec_safe = False, multiple_hosts = False,
      on_request = False, has_response = False, required_server = Some ''smb''\<rparr>"

definition loud_env :: env where
  "loud_env = example_env\<lparr>modules := [''loud'' \<mapsto> loud_module], stdin := [''n'']\<rparr>"

definition interrupted_env :: env where
  "interrupted_env = example_env\<lparr>interrupt := InterruptAfter 1\<rparr>"

definition forcing_module :: nxc_module where
  "forcing_module = web_module\<lparr>mod_name := ''relay'', required_server := Some ''smb''\<rparr>"

definition failing_env :: env where
  "failing_env = example_env\<lparr>server_result := (\<lambda>k. SrvStartRaises)\<rparr>"

definition http_module :: nxc_module where
  "http_module = web_module\<lparr>mod_name := ''hook'', required_server := Some ''http''\<rparr>"

definition two_kinds_env :: env where
  "two_kinds_env =
     example_env\<lparr>modules := [''relay'' \<mapsto> forcing_module, ''hook'' \<mapsto> http_module]\<rparr>"

definition web_started :: setup_state where
  "web_started =
     (initial example_env example_args)
       \<lparr>cfg := example_args\<lparr>server_port := Some 443\<rparr>, module_server := Some 0,
        proto_server := Some 0, attempts := 1,
        trace := [EvServerStart 0 ''0.0.0.0'' 443 ''https'']\<rparr>"

definition relay_failed :: setup_state where
  "relay_failed =
     (initial failing_env example_args)
       \<lparr>cfg := example_args\<lparr>server := ''smb'', server_port := Some 445\<rparr>,
        module_server := Some 0, attempts := 1, trace := [EvServerError ''relay'']\<rparr>"

section \<open>Properties of the credential-id expansion\<close>

declare expand_loop.simps [simp del]

lemma split_on_nonempty: "split_on c s \<noteq> []"
  by (induction s) auto

lemma split_on_no_sep: "p \<in> set (split_on c s) \<Longrightarrow> c \<notin> set p"
proof (induction s arbitrary: p)
  case Nil
  then show ?case by simp
next
  case (Cons x xs)
  obtain h t where ht: "split_on c xs = h # t"
    using split_on_nonempty [of c xs] by (cases "split_on c xs") auto
  show ?case
  proof (cases "x = c")
    case True
    then show ?thesis using Cons by auto
  next
    case False
    then show ?thesis using Cons ht by auto
  qed
qed

lemma digit_val_nonneg: "is_digit c \<Longrightarrow> 0 \<le> digit_val c"
  by (simp add: is_digit_def digit_val_def Let_def)

lemma foldl_digits_nonneg:
  "0 \<le> a \<Longrightarrow> 0 \<le> foldl (\<lambda>a c. 10 * a + digit_val c) a (filter is_digit s)"
  by (induction s arbitrary: a) (auto simp: digit_val_nonneg)

lemma py_digits_nonneg: "py_digits s = Some n \<Longrightarrow> 0 \<le> n"
  using foldl_digits_nonneg [of 0 s] by (auto simp: py_digits_def split: if_splits)

lemma set_int_strip: "set (int_strip s) \<subseteq> set s"
proof -
  have "set (int_strip s) \<subseteq> set (dropWhile is_int_space s)"
    unfolding int_strip_def using set_dropWhileD by fastforce
  then show ?thesis using set_dropWhileD by fastforce
qed

lemma py_int_nonneg:
  assumes "CHR ''-'' \<notin> set s" "py_int s = Some n"
  shows "0 \<le> n"
proof -
  have "CHR ''-'' \<notin> set (int_strip s)"
    using assms(1) set_int_strip by blast
  then show ?thesis
    using assms(2) by (auto simp: py_int_def split: list.splits if_splits dest: py_digits_nonneg)
qed

lemma range_bounds_nonneg:
  assumes "range_bounds s = Some (a, b)"
  shows "0 \<le> a"
proof -
  obtain p q where pq: "split_on (CHR ''-'') s = [p, q]" "py_int p = Some a"
    using assms by (auto simp: range_bounds_def split: list.splits option.splits)
  have "CHR ''-'' \<notin> set p"
    using pq(1) split_on_no_sep [of p "CHR ''-''" s] by simp
  then show ?thesis using pq(2) py_int_nonneg by blast
qed

lemma range_ints_plain: "x \<in> set (range_ints c) \<Longrightarrow> \<not> has_dash x"
proof (cases c)
  case (CStr s)
  assume x: "x \<in> set (range_ints c)"
  then obtain a b where ab: "range_bounds s = Some (a, b)" "x \<in> set (map CInt [a..b])"
    using CStr by (cases "range_bounds s") auto
  then show ?thesis using range_bounds_nonneg [OF ab(1)] by auto
next
  case (CInt n)
  then show "x \<in> set (range_ints c) \<Longrightarrow> \<not> has_dash x" by simp
qed

lemma expand_loop_done:
  "\<forall>x \<in> set (drop i xs). \<not> has_dash x \<Longrightarrow> expand_loop xs i = Inr xs"
proof (induction "length xs - i" arbitrary: i)
  case 0
  then show ?case by (simp add: expand_loop.simps)
next
  case (Suc k)
  then have lt: "i < length xs" by simp
  have "xs ! i \<in> set (drop i xs)"
    using lt by (metis Cons_nth_drop_Suc list.set_intros(1))
  then have pl: "\<not> has_dash (xs ! i)" using Suc.prems by blast
  have "drop i xs = xs ! i # drop (Suc i) xs"
    using lt by (simp add: Cons_nth_drop_Suc)
  then have "\<forall>x \<in> set (drop (Suc i) xs). \<not> has_dash x"
    using Suc.prems by simp
  then have "expand_loop xs (Suc i) = Inr xs"
    using Suc.hyps by (intro Suc.hyps(1)) auto
  then show ?case using lt pl by (subst expand_loop.simps) simp
qed

lemma expand_loop_step:
  assumes "i < length xs" "xs ! i = CStr s" "CHR ''-'' \<in> set s" "range_bounds s = Some (a, b)"
  shows "expand_loop xs i = expand_loop (remove1 (CStr s) (xs @ map CInt [a..b])) (Suc i)"
  using assms
  by (subst expand_loop.simps) (auto simp: range_bounds_def split: list.splits option.splits)

lemma expand_loop_pass:
  assumes "i < length xs" "\<not> has_dash (xs ! i)"
  shows "expand_loop xs i = expand_loop xs (Suc i)"
  using assms by (subst expand_loop.simps) simp

lemma remove1_mid:
  "x \<notin> set P \<Longrightarrow> remove1 x (P @ x # R) = P @ R"
  by (simp add: remove1_append)

lemma expand_loop_nonadj:
  assumes "\<forall>x \<in> set P. \<not> has_dash x" "\<forall>x \<in> set T. \<not> has_dash x"
    and "no_adjacent R" "\<forall>x \<in> set R. has_dash x \<longrightarrow> well_formed x"
  shows "expand_loop (P @ R @ T) (length P) =
           Inr (P @ filter (\<lambda>x. \<not> has_dash x) R @ T @ concat (map range_ints (filter has_dash R)))"
  using assms
proof (induction "length R" arbitrary: P R T rule: less_induct)
  case less
  show ?case
  proof (cases R)
    case Nil
    have "\<forall>x \<in> set (drop (length P) (P @ T)). \<not> has_dash x"
      using less.prems(2) by simp
    then show ?thesis using Nil expand_loop_done by simp
  next
    case (Cons x R')
    show ?thesis
    proof (cases "has_dash x")
      case False
      have pass: "expand_loop (P @ R @ T) (length P) = expand_loop (P @ R @ T) (Suc (length P))"
        using Cons False by (intro expand_loop_pass) (simp_all add: nth_append)
      have "expand_loop ((P @ [x]) @ R' @ T) (length (P @ [x])) =
          Inr ((P @ [x]) @ filter (\<lambda>x. \<not> has_dash x) R' @ T @ concat (map range_ints (filter has_dash R')))"
      proof (rule less.hyps)
        show "length R' < length R" using Cons by simp
        show "\<forall>x \<in> set (P @ [x]). \<not> has_dash x" using less.prems(1) False by simp
        show "\<forall>x \<in> set T. \<not> has_dash x" by (rule less.prems(2))
        show "no_adjacent R'" using less.prems(3) Cons by (cases R') auto
        show "\<forall>x \<in> set R'. has_dash x \<longrightarrow> well_formed x" using less.prems(4) Cons by simp
      qed
      then show ?thesis using pass Cons False by simp
    next
      case True
      then obtain s a b where x: "x = CStr s" "CHR ''-'' \<in> set s" "range_bounds s = Some (a, b)"
        using less.prems(4) Cons by (cases x) auto
      have xP: "x \<notin> set P" using True less.prems(1) by blast
      let ?ints = "map CInt [a..b]"
      have ints_plain: "\<forall>y \<in> set ?ints. \<not> has_dash y"
        using range_ints_plain [of _ x] x by simp
      have step: "expand_loop (P @ R @ T) (length P) =
          expand_loop (remove1 (CStr s) ((P @ R @ T) @ ?ints)) (Suc (length P))"
        using Cons x by (intro expand_loop_step) (simp_all add: nth_append)
      have rem: "remove1 (CStr s) ((P @ R @ T) @ ?ints) = P @ R' @ T @ ?ints"
        using xP x(1) Cons by (simp add: remove1_append)
      show ?thesis
      proof (cases R')
        case Nil
        have "\<forall>y \<in> set (drop (Suc (length P)) (P @ T @ ?ints)). \<not> has_dash y"
          using less.prems(2) ints_plain by (auto dest!: in_set_dropD)
        then have "expand_loop (P @ T @ ?ints) (Suc (length P)) = Inr (P @ T @ ?ints)"
          by (rule expand_loop_done)
        then show ?thesis using step rem Nil Cons True x by simp
      next
        case (Cons y R'')
        have R: "R = x # y # R''" using \<open>R = x # R'\<close> Cons by simp
        have y: "\<not> has_dash y" using less.prems(3) True R by simp
        have "expand_loop ((P @ [y]) @ R'' @ (T @ ?ints)) (length (P @ [y])) =
          Inr ((P @ [y]) @ filter (\<lambda>x. \<not> has_dash x) R'' @ (T @ ?ints)
               @ concat (map range_ints (filter has_dash R'')))"
        proof (rule less.hyps)
          show "length R'' < length R" using R by simp
          show "\<forall>x \<in> set (P @ [y]). \<not> has_dash x" using less.prems(1) y by simp
          show "\<forall>x \<in> set (T @ ?ints). \<not> has_dash x" using less.prems(2) ints_plain by auto
          show "no_adjacent R''" using less.prems(3) R by (cases R'') auto
          show "\<forall>x \<in> set R''. has_dash x \<longrightarrow> well_formed x" using less.prems(4) R by simp
        qed
        then show ?thesis using step rem R Cons True y x by simp
      qed
    qed
  qed
qed

lemma expand_loop_skip_prefix:
  assumes "\<forall>x \<in> set P. \<not> has_dash x"
  shows "i \<le> length P \<Longrightarrow> expand_loop (P @ R) i = expand_loop (P @ R) (length P)"
proof (induction "length P - i" arbitrary: i)
  case 0
  then show ?case by simp
next
  case (Suc k)
  then have lt: "i < length P" by simp
  then have "\<not> has_dash ((P @ R) ! i)" using assms by (simp add: nth_append)
  then have "expand_loop (P @ R) i = expand_loop (P @ R) (Suc i)"
    using lt by (intro expand_loop_pass) simp_all
  moreover have "expand_loop (P @ R) (Suc i) = expand_loop (P @ R) (length P)"
    using Suc lt by (intro Suc.hyps(1)) auto
  ultimately show ?case by simp
qed

lemma expand_loop_malformed:
  assumes "\<forall>x \<in> set P. \<not> has_dash x" "CHR ''-'' \<in> set s"
    and "split_on (CHR ''-'') s = [p, q]" "py_int p = None \<or> py_int q = None"
  shows "expand_loop (P @ CStr s # R) 0 = Inl (Exit 1)"
proof -
  have "expand_loop (P @ CStr s # R) 0 = expand_loop (P @ CStr s # R) (length P)"
    using assms(1) by (intro expand_loop_skip_prefix) simp_all
  also have "\<dots> = Inl (Exit 1)"
    using assms(2-4) by (subst expand_loop.simps) (auto split: option.splits)
  finally show ?thesis .
qed

lemma take_Suc_remove1:
  assumes "i < length xs" "xs ! i = x"
  shows "set (take i xs) \<subseteq> set (take (Suc i) (remove1 x (xs @ ys)))"
    and "Suc i < length xs \<Longrightarrow> remove1 x (xs @ ys) ! i = xs ! Suc i"
    and "Suc i < length xs \<Longrightarrow> xs ! Suc i \<in> set (take (Suc i) (remove1 x (xs @ ys)))"
proof -
  define A where "A = take i xs"
  define B where "B = drop (Suc i) xs @ ys"
  have xs: "xs @ ys = A @ x # B" and lenA: "length A = i"
    using assms id_take_nth_drop [of i xs] by (simp_all add: A_def B_def)
  have B0: "B ! 0 = xs ! Suc i" "B \<noteq> []" if "Suc i < length xs"
    using that by (simp_all add: B_def nth_append)
  show "set (take i xs) \<subseteq> set (take (Suc i) (remove1 x (xs @ ys)))"
  proof (cases "x \<in> set A")
    case True
    then have len: "length (remove1 x A) = i - 1" using lenA by (simp add: length_remove1)
    have i: "0 < i" using True lenA by (cases A) auto
    have "remove1 x (xs @ ys) = remove1 x A @ x # B" using True xs by (simp add: remove1_append)
    then have "take (Suc i) (remove1 x (xs @ ys)) = remove1 x A @ x # take 1 B"
      using len i by simp
    moreover have "set A \<subseteq> insert x (set (remove1 x A))"
      by (metis insert_absorb set_remove1_eq insert_Diff_single subset_insertI set_remove1_subset
          subsetI insertCI in_set_remove1)
    ultimately show ?thesis unfolding A_def [symmetric] by auto
  next
    case False
    then have "remove1 x (xs @ ys) = A @ B" using xs by (simp add: remove1_append)
    then show ?thesis using lenA unfolding A_def [symmetric] by simp
  qed
  show "remove1 x (xs @ ys) ! i = xs ! Suc i" if "Suc i < length xs"
  proof (cases "x \<in> set A")
    case True
    then have len: "length (remove1 x A) = i - 1" using lenA by (simp add: length_remove1)
    have i: "0 < i" using True lenA by (cases A) auto
    have "remove1 x (xs @ ys) = (remove1 x A @ [x]) @ B" using True xs by (simp add: remove1_append)
    moreover have "length (remove1 x A @ [x]) = i" using len i by simp
    ultimately show ?thesis using B0 [OF that] by (metis nth_append_length_plus add.right_neutral)
  next
    case False
    then have "remove1 x (xs @ ys) = A @ B" using xs by (simp add: remove1_append)
    then show ?thesis using lenA B0 [OF that] by (metis nth_append_length_plus add.right_neutral)
  qed
  then show "xs ! Suc i \<in> set (take (Suc i) (remove1 x (xs @ ys)))" if "Suc i < length xs"
  proof -
    let ?zs = "remove1 x (xs @ ys)"
    have "x \<in> set (xs @ ys)" using assms by auto
    then have "length ?zs = length (xs @ ys) - 1" by (simp add: length_remove1)
    then have "i < length ?zs" using that by simp
    then have "take (Suc i) ?zs ! i \<in> set (take (Suc i) ?zs)" by (intro nth_mem) simp
    moreover have "take (Suc i) ?zs ! i = xs ! Suc i"
      using \<open>Suc i < length xs \<Longrightarrow> ?zs ! i = xs ! Suc i\<close> that by simp
    ultimately show ?thesis by simp
  qed
qed

lemma expand_loop_keeps:
  "y \<in> set (take i xs) \<Longrightarrow> expand_loop xs i = Inr out \<Longrightarrow> y \<in> set out"
proof (induction xs i rule: expand_loop.induct)
  case (1 xs i)
  show ?case
  proof (cases "length xs \<le> i")
    case True
    then show ?thesis using "1.prems" by (simp add: expand_loop.simps)
  next
    case lt: False
    show ?thesis
    proof (cases "has_dash (xs ! i)")
      case False
      have "expand_loop xs (Suc i) = Inr out"
        using "1.prems"(2) lt False expand_loop_pass [of i xs] by simp
      moreover have "y \<in> set (take (Suc i) xs)"
        using "1.prems"(1) set_take_subset_set_take [of i "Suc i" xs] by auto
      ultimately show ?thesis using "1.IH"(1) lt False by blast
    next
      case True
      from "1.prems"(2) lt True obtain s p q a b where
        s: "xs ! i = CStr s" "split_on (CHR ''-'') s = [p, q]" "py_int p = Some a" "py_int q = Some b"
        and run: "expand_loop (remove1 (xs ! i) (xs @ map CInt [a..b])) (Suc i) = Inr out"
        by (subst (asm) expand_loop.simps) (auto split: cred.splits list.splits option.splits)
      have "y \<in> set (take (Suc i) (remove1 (xs ! i) (xs @ map CInt [a..b])))"
        using take_Suc_remove1(1) [of i xs "xs ! i" "map CInt [a..b]"] lt "1.prems"(1) by auto
      then show ?thesis
        using "1.IH"(2) [OF lt _ s(1) s(2) _ _ s(3) s(4) _ run] True s by simp
    qed
  qed
qed

lemma range_bounds_5_7: "range_bounds ''5-7'' = Some (5, 7)"
  by code_simp

lemma range_bounds_5_3: "range_bounds ''5-3'' = Some (5, 3)"
  by code_simp

lemma range_bounds_1_2: "range_bounds ''1-2'' = Some (1, 2)"
  by code_simp

lemma py_int_x: "py_int ''x'' = None"
  by code_simp

lemma upto_5_7: "[5..7::int] = [5, 6, 7]"
  by code_simp

lemma upto_1_2: "[1..2::int] = [1, 2]"
  by code_simp

text \<open>
  Claim C10, as amended.  When the loop rewrites a range expression at position
  \<open>i\<close>, it goes on at position \<open>i + 1\<close> of the new list, and position \<open>i\<close> of the new
  list holds the element that followed the expression: that element is never
  looked at, and it is still in the list when the loop ends.  So the input
  \<open>["1-2", "3-4"]\<close> ends as \<open>["3-4", 1, 2]\<close>.
\<close>

theorem element_after_range_skipped:
  "(Suc i < length xs \<and> xs ! i = CStr s \<and> CHR ''-'' \<in> set s \<and> range_bounds s = Some (a, b) \<longrightarrow>
      expand_loop xs i = expand_loop (remove1 (CStr s) (xs @ map CInt [a..b])) (Suc i) \<and>
      remove1 (CStr s) (xs @ map CInt [a..b]) ! i = xs ! Suc i \<and>
      (\<forall>out. expand_loop xs i = Inr out \<longrightarrow> xs ! Suc i \<in> set out))
   \<and> expand_cred_ids [CStr ''1-2'', CStr ''3-4''] = Inr [CStr ''3-4'', CInt 1, CInt 2]"
proof (intro conjI impI allI)
  assume h: "Suc i < length xs \<and> xs ! i = CStr s \<and> CHR ''-'' \<in> set s \<and> range_bounds s = Some (a, b)"
  then have lt: "i < length xs" by simp
  let ?zs = "remove1 (CStr s) (xs @ map CInt [a..b])"
  show step: "expand_loop xs i = expand_loop ?zs (Suc i)"
    using h lt by (intro expand_loop_step) simp_all
  show "?zs ! i = xs ! Suc i"
    using take_Suc_remove1(2) [of i xs "CStr s" "map CInt [a..b]"] h lt by simp
  fix out
  assume "expand_loop xs i = Inr out"
  then have "expand_loop ?zs (Suc i) = Inr out" using step by simp
  moreover have "xs ! Suc i \<in> set (take (Suc i) ?zs)"
    using take_Suc_remove1(3) [of i xs "CStr s" "map CInt [a..b]"] h lt by simp
  ultimately show "xs ! Suc i \<in> set out" by (rule expand_loop_keeps [rotated])
next
  show "expand_cred_ids [CStr ''1-2'', CStr ''3-4''] = Inr [CStr ''3-4'', CInt 1, CInt 2]"
    by code_simp
qed

lemma expand_1_2_3_4_7:
  "expand_loop [CStr ''1-2'', CStr ''3-4'', CStr ''7''] 0 =
     Inr [CStr ''3-4'', CStr ''7'', CInt 1, CInt 2]"
  by code_simp

theorem element_after_range_skipped_witness:
  "Suc 0 < length [CStr ''1-2'', CStr ''3-4'', CStr ''7''] \<and>
   [CStr ''1-2'', CStr ''3-4'', CStr ''7''] ! 0 = CStr ''1-2'' \<and> CHR ''-'' \<in> set ''1-2'' \<and>
   range_bounds ''1-2'' = Some (1, 2) \<and>
   expand_loop [CStr ''1-2'', CStr ''3-4'', CStr ''7''] 0 =
     expand_loop [CStr ''3-4'', CStr ''7'', CInt 1, CInt 2] (Suc 0) \<and>
   [CStr ''3-4'', CStr ''7'', CInt 1, CInt 2] ! 0 = CStr ''3-4'' \<and>
   expand_loop [CStr ''1-2'', CStr ''3-4'', CStr ''7''] 0 =
     Inr [CStr ''3-4'', CStr ''7'', CInt 1, CInt 2] \<and>
   CStr ''3-4'' \<in> set [CStr ''3-4'', CStr ''7'', CInt 1, CInt 2]"
  using element_after_range_skipped [of 0 "[CStr ''1-2'', CStr ''3-4'', CStr ''7'']" "''1-2''" 1 2]
  by (simp add: range_bounds_1_2 upto_1_2 expand_1_2_3_4_7)

text \<open>The claim as stated fails: in \<open>["1-2", "3-4", "5-6"]\<close> the expression \<open>5-6\<close> directly
  follows the range expression \<open>3-4\<close>, and it is expanded and removed.\<close>

theorem third_range_counterexample:
  "expand_cred_ids [CStr ''1-2'', CStr ''3-4'', CStr ''5-6''] =
     Inr [CStr ''3-4'', CInt 1, CInt 2, CInt 5, CInt 6] \<and>
   CStr ''5-6'' \<notin> set [CStr ''3-4'', CInt 1, CInt 2, CInt 5, CInt 6]"
  by code_simp

section \<open>Properties of the target list\<close>

lemma extend_from_lines_eq:
  "extend_from_lines e ls acc = acc @ concat (map (\<lambda>l. parse_targets e (py_strip l)) ls)"
  by (induction ls arbitrary: acc) auto

lemma build_targets_eq:
  "build_targets e proto ts acc = acc @ concat (map (entries_of e proto) ts)"
  by (induction ts arbitrary: acc)
    (auto simp: entries_of_def extend_from_lines_eq split: option.splits)

lemma count_list_concat:
  "count_list (concat xss) x = sum_list (map (\<lambda>xs. count_list xs x) xss)"
  by (induction xss) auto

text \<open>
  Claim C1, as amended.  The built target list is the concatenation, in the order
  of the raw inputs, of what each input contributes (the parse of a literal, the
  parse of a scan report, or the parses of the lines of a plain file).  Nothing is
  removed: every address is in the list as many times as the inputs yield it, in
  first-seen order.
\<close>

theorem targets_concatenated:
  "build_targets e proto ts [] = concat (map (entries_of e proto) ts) \<and>
   (\<forall>x. count_list (build_targets e proto ts []) x =
          sum_list (map (\<lambda>t. count_list (entries_of e proto t) x) ts))"
  by (simp add: build_targets_eq count_list_concat comp_def)

text \<open>The claim as stated fails: the three literal targets of the spec's scenario build
  a list of three, with the repeated address twice.\<close>

theorem duplicate_targets_counterexample:
  "build_targets example_env ''smb'' [''10.0.0.1'', ''10.0.0.1'', ''10.0.0.2''] [] =
     [''10.0.0.1'', ''10.0.0.1'', ''10.0.0.2''] \<and>
   \<not> distinct (build_targets example_env ''smb'' [''10.0.0.1'', ''10.0.0.1'', ''10.0.0.2''] [])"
  by (simp add: example_env_def)

section \<open>Properties of the dispatch engine\<close>

lemma submit_all_map: "submit_all a d ts = map (EvSubmit a d) ts"
  by (induction ts) auto

lemma progress_loop_eq: "progress_loop n c = map EvUpdate [Suc c..<Suc (c + n)]"
proof (induction n arbitrary: c)
  case 0
  then show ?case by simp
next
  case (Suc n)
  have "[Suc c..<Suc (c + Suc n)] = Suc c # [Suc (Suc c)..<Suc (Suc c + n)]"
    by (simp add: upt_conv_Cons)
  then show ?case using Suc by simp
qed

lemma filter_submit_map [simp]: "filter submit_event (map (EvSubmit a d) ts) = map (EvSubmit a d) ts"
  by (induction ts) auto

lemma filter_submit_updates [simp]: "filter submit_event (map EvUpdate ns) = []"
  by (induction ns) auto

lemma filter_pool_map [simp]: "filter pool_event (map (EvSubmit a d) ts) = []"
  by (induction ts) auto

lemma filter_pool_updates [simp]: "filter pool_event (map EvUpdate ns) = []"
  by (induction ns) auto

lemma filter_progress_map [simp]: "filter progress_event (map (EvSubmit a d) ts) = []"
  by (induction ts) auto

lemma filter_noprogress_map [simp]:
  "filter (\<lambda>ev. \<not> progress_event ev) (map (EvSubmit a d) ts) = map (EvSubmit a d) ts"
  by (induction ts) auto

lemma filter_noprogress_updates [simp]:
  "filter (\<lambda>ev. \<not> progress_event ev) (map EvUpdate ns) = []"
  by (induction ns) auto

text \<open>
  Claim C5, as amended.  For a run with \<open>N\<close> targets and a worker width \<open>W \<ge> 0\<close>,
  \<open>start_run\<close> creates one pool, of size \<open>W + 1\<close>; without a stop signal it submits the
  call \<open>protocol_obj(args, db, target)\<close> once per target, in the order of the target
  list (\<open>N\<close> submissions), and returns after the wait for all \<open>N\<close> units; when it does
  not return, a stop signal was observed.  For a width \<open>W < 0\<close> the constructor of the
  pool raises \<open>ValueError\<close>: no pool is created, nothing is submitted, and the
  exception leaves \<open>start_run\<close>.
\<close>

theorem start_run_pool_and_submissions:
  "(0 \<le> threads a \<longrightarrow>
     filter pool_event (fst (start_run e a d ts)) = [EvPool (threads a + 1)] \<and>
     (interrupt e = NoInterrupt \<longrightarrow>
        snd (start_run e a d ts) = Inr () \<and>
        filter submit_event (fst (start_run e a d ts)) = map (EvSubmit a d) ts \<and>
        length (filter submit_event (fst (start_run e a d ts))) = length ts \<and>
        last (fst (start_run e a d ts)) = EvAllDone (map (\<lambda>t. (t, protocol_obj e a d t)) ts)) \<and>
     (snd (start_run e a d ts) \<noteq> Inr () \<longrightarrow>
        interrupt e \<noteq> NoInterrupt \<and> snd (start_run e a d ts) = Inl ''KeyboardInterrupt'')) \<and>
   (threads a < 0 \<longrightarrow>
     snd (start_run e a d ts) = Inl ''ValueError'' \<and>
     filter pool_event (fst (start_run e a d ts)) = [] \<and>
     filter submit_event (fst (start_run e a d ts)) = [])"
  by (cases "interrupt e")
    (auto simp: start_run_def submit_all_map progress_loop_eq units_done_def)

theorem start_run_pool_and_submissions_witness:
  "0 \<le> threads example_args \<and>
   filter pool_event (fst (start_run example_env example_args (Db ''smb'') [''10.0.0.1'', ''10.0.0.2''])) =
     [EvPool 101] \<and>
   interrupt example_env = NoInterrupt \<and>
   snd (start_run example_env example_args (Db ''smb'') [''10.0.0.1'', ''10.0.0.2'']) = Inr () \<and>
   filter submit_event (fst (start_run example_env example_args (Db ''smb'') [''10.0.0.1'', ''10.0.0.2''])) =
     [EvSubmit example_args (Db ''smb'') ''10.0.0.1'', EvSubmit example_args (Db ''smb'') ''10.0.0.2''] \<and>
   last (fst (start_run example_env example_args (Db ''smb'') [''10.0.0.1'', ''10.0.0.2''])) =
     EvAllDone [(''10.0.0.1'', Returned), (''10.0.0.2'', Raised ''OSError'')] \<and>
   threads negative_width_args < 0 \<and>
   snd (start_run example_env negative_width_args (Db ''smb'') [''10.0.0.1'', ''10.0.0.2'']) =
     Inl ''ValueError'' \<and>
   filter submit_event
     (fst (start_run example_env negative_width_args (Db ''smb'') [''10.0.0.1'', ''10.0.0.2''])) = []"
proof -
  have t: "threads example_args = 100" and i: "interrupt example_env = NoInterrupt"
    and p: "protocol_obj example_env = (\<lambda>a d t. if t = ''10.0.0.2'' then Raised ''OSError'' else Returned)"
    and n: "threads negative_width_args = - 1"
    by (simp_all add: example_args_def example_env_def negative_width_args_def)
  show ?thesis
    using
      start_run_pool_and_submissions [where a = example_args and e = example_env
        and d = "Db ''smb''" and ts = "[''10.0.0.1'', ''10.0.0.2'']"]
      start_run_pool_and_submissions [where a = negative_width_args and e = example_env
        and d = "Db ''smb''" and ts = "[''10.0.0.1'', ''10.0.0.2'']"]
    by (simp add: t i p n)
qed

text \<open>
  The claim as stated fails for the width \<open>-1\<close>, which nothing in \<open>netexec.py\<close> rules out:
  with progress display enabled and two targets, the display is opened, the
  constructor of the pool raises, and no pool exists and nothing is submitted.
\<close>

theorem negative_width_counterexample:
  "threads negative_width_args = - 1 \<and>
   start_run example_env negative_width_args (Db ''smb'') [''10.0.0.1'', ''10.0.0.2''] =
     ([EvStartRun, EvProgress], Inl ''ValueError'') \<and>
   filter pool_event
     (fst (start_run example_env negative_width_args (Db ''smb'') [''10.0.0.1'', ''10.0.0.2''])) = [] \<and>
   filter submit_event
     (fst (start_run example_env negative_width_args (Db ''smb'') [''10.0.0.1'', ''10.0.0.2''])) = []"
  by (simp add: start_run_def negative_width_args_def example_args_def)

text \<open>
  Claim C8.  How \<open>start_run\<close> ends, and what it submits, does not depend on what the
  protocol object does; when the call for one target raises, \<open>start_run\<close> still
  submits every target, waits for every unit and returns normally, the exception
  staying with the unit that raised it.
\<close>

theorem handler_failure_isolated:
  "snd (start_run (e\<lparr>protocol_obj := h\<rparr>) a d ts) = snd (start_run (e\<lparr>protocol_obj := h'\<rparr>) a d ts) \<and>
   filter submit_event (fst (start_run (e\<lparr>protocol_obj := h\<rparr>) a d ts)) =
     filter submit_event (fst (start_run (e\<lparr>protocol_obj := h'\<rparr>) a d ts)) \<and>
   (0 \<le> threads a \<and> interrupt e = NoInterrupt \<and> t \<in> set ts \<and> protocol_obj e a d t = Raised c \<longrightarrow>
      snd (start_run e a d ts) = Inr () \<and>
      filter submit_event (fst (start_run e a d ts)) = map (EvSubmit a d) ts \<and>
      last (fst (start_run e a d ts)) = EvAllDone (map (\<lambda>u. (u, protocol_obj e a d u)) ts))"
  by (cases "interrupt e")
    (auto simp: start_run_def submit_all_map progress_loop_eq units_done_def)

theorem handler_failure_isolated_witness:
  "0 \<le> threads example_args \<and> interrupt example_env = NoInterrupt \<and>
   ''10.0.0.2'' \<in> set [''10.0.0.2'', ''10.0.0.3''] \<and>
   protocol_obj example_env example_args (Db ''smb'') ''10.0.0.2'' = Raised ''OSError'' \<and>
   snd (start_run example_env example_args (Db ''smb'') [''10.0.0.2'', ''10.0.0.3'']) = Inr () \<and>
   filter submit_event (fst (start_run example_env example_args (Db ''smb'') [''10.0.0.2'', ''10.0.0.3''])) =
     [EvSubmit example_args (Db ''smb'') ''10.0.0.2'', EvSubmit example_args (Db ''smb'') ''10.0.0.3''] \<and>
   last (fst (start_run example_env example_args (Db ''smb'') [''10.0.0.2'', ''10.0.0.3''])) =
     EvAllDone [(''10.0.0.2'', Raised ''OSError''), (''10.0.0.3'', Returned)]"
proof -
  have t: "threads example_args = 100" and i: "interrupt example_env = NoInterrupt"
    and p: "protocol_obj example_env = (\<lambda>a d t. if t = ''10.0.0.2'' then Raised ''OSError'' else Returned)"
    by (simp_all add: example_args_def example_env_def)
  show ?thesis
    using handler_failure_isolated [where e = example_env and a = example_args
        and d = "Db ''smb''" and ts = "[''10.0.0.2'', ''10.0.0.3'']" and t = "''10.0.0.2''"
        and c = "''OSError''"]
    by (simp add: t i p)
qed






section \<open>Properties of the module loop and of the whole run\<close>

lemma asked_simps [simp]:
  "asked ev \<Longrightarrow> \<not> declined ev" "asked ev \<Longrightarrow> \<not> dispatch_event ev"
  "asked ev \<Longrightarrow> \<not> shutdown_event ev" "asked ev \<Longrightarrow> \<not> start_event ev"
  "asked ev \<Longrightarrow> \<not> started h ev"
  by (cases ev; simp)+

lemma started_start: "started h ev \<Longrightarrow> start_event ev"
  by (cases ev) auto

lemma ask_Inr:
  assumes "ask q st = Inr st'"
  shows "\<exists>evs. st' = st\<lparr>pending_input := pending_input st', trace := trace st @ evs\<rparr> \<and>
           (\<forall>ev \<in> set evs. asked ev)"
proof -
  from assms obtain ans rest where
    "pending_input st = ans # rest" "confirmed ans"
    "st' = st\<lparr>pending_input := rest, trace := trace st @ [EvPrompt q, EvAnswer ans]\<rparr>"
    by (auto simp: ask_def split: list.splits if_splits)
  then have "st' = st\<lparr>pending_input := pending_input st',
      trace := trace st @ [EvPrompt q, EvAnswer ans]\<rparr> \<and>
      (\<forall>ev \<in> set [EvPrompt q, EvAnswer ans]. asked ev)"
    by simp
  then show ?thesis by blast
qed

lemma ask_Inl:
  assumes "ask q st = Inl (x, tr)"
  shows "\<exists>evs. tr = trace st @ evs \<and> (\<forall>ev \<in> set evs. \<not> dispatch_event ev \<and> \<not> shutdown_event ev) \<and>
           exit_status (Some x) = 1 \<and> ((\<exists>ev \<in> set evs. declined ev) \<longrightarrow> x = Exit 1)"
  using assms by (auto simp: ask_def split: list.splits if_splits)

lemma gate_like_ask: "gate_like (ask q)"
  unfolding gate_like_def using ask_Inr ask_Inl by blast

lemma gate_like_Inr: "gate_like Inr"
  unfolding gate_like_def
proof (intro allI conjI impI)
  fix st st' :: setup_state
  assume "Inr st = Inr st'"
  then have "st' = st\<lparr>pending_input := pending_input st', trace := trace st @ []\<rparr>" by simp
  then show "\<exists>evs. st' = st\<lparr>pending_input := pending_input st', trace := trace st @ evs\<rparr> \<and>
      (\<forall>ev \<in> set evs. asked ev)"
    by (metis empty_iff list.set(1))
qed simp

lemma gate_like_opsec: "gate_like (opsec_gate e m)"
proof -
  have "opsec_gate e m = Inr \<or> opsec_gate e m = ask (OpsecPrompt (mod_name m))"
    by (auto simp: opsec_gate_def fun_eq_iff)
  then show ?thesis using gate_like_ask gate_like_Inr by auto
qed

lemma gate_like_multi: "gate_like (multi_host_gate n m)"
proof -
  have "multi_host_gate n m = Inr \<or> multi_host_gate n m = ask (MultiHostPrompt (mod_name m))"
    by (auto simp: multi_host_gate_def fun_eq_iff)
  then show ?thesis using gate_like_ask gate_like_Inr by auto
qed

lemma gate_like_if:
  assumes "gate_like f" "gate_like g"
  shows "gate_like (\<lambda>st. if c st then f st else g st)"
  unfolding gate_like_def
proof (intro allI)
  fix st
  show "(\<forall>st'. (if c st then f st else g st) = Inr st' \<longrightarrow>
              (\<exists>evs. st' = st\<lparr>pending_input := pending_input st', trace := trace st @ evs\<rparr> \<and>
                 (\<forall>ev \<in> set evs. asked ev))) \<and>
           (\<forall>x tr. (if c st then f st else g st) = Inl (x, tr) \<longrightarrow>
              (\<exists>evs. tr = trace st @ evs \<and>
                 (\<forall>ev \<in> set evs. \<not> dispatch_event ev \<and> \<not> shutdown_event ev) \<and>
                 exit_status (Some x) = 1 \<and> ((\<exists>ev \<in> set evs. declined ev) \<longrightarrow> x = Exit 1)))"
  proof (cases "c st")
    case True
    then show ?thesis using assms(1) [unfolded gate_like_def, rule_format, of st] by simp
  next
    case False
    then show ?thesis using assms(2) [unfolded gate_like_def, rule_format, of st] by simp
  qed
qed

lemma gate_like_ntds: "gate_like ntds_gate"
proof -
  have "ntds_gate =
      (\<lambda>st. if ntds (cfg st) \<and> \<not> truthy (userntds (cfg st)) then ask NtdsPrompt st else Inr st)"
    by (simp add: ntds_gate_def fun_eq_iff)
  then show ?thesis
    using gate_like_if [OF gate_like_ask gate_like_Inr,
        of "\<lambda>st. ntds (cfg st) \<and> \<not> truthy (userntds (cfg st))" NtdsPrompt]
    by simp
qed

lemma gate_Inr:
  assumes "gate_like f" "f st = Inr st'"
  obtains evs where "st' = st\<lparr>pending_input := pending_input st', trace := trace st @ evs\<rparr>"
    "\<forall>ev \<in> set evs. asked ev"
  using assms unfolding gate_like_def by blast

lemma gate_Inl:
  assumes "gate_like f" "f st = Inl (x, tr)"
  obtains evs where "tr = trace st @ evs"
    "\<forall>ev \<in> set evs. \<not> dispatch_event ev \<and> \<not> shutdown_event ev"
    "exit_status (Some x) = 1" "(\<exists>ev \<in> set evs. declined ev) \<longrightarrow> x = Exit 1"
  using assms unfolding gate_like_def by blast

lemma filter_asked: "\<forall>ev \<in> set evs. asked ev \<Longrightarrow> filter start_event evs = []"
  by (induction evs) auto

lemma gate_keeps:
  assumes "gate_like f" "f st = Inr st'"
  shows "clean (trace st) \<Longrightarrow> clean (trace st')"
    and "no_server st \<Longrightarrow> no_server st'"
    and "one_server st \<Longrightarrow> one_server st'"
proof -
  obtain evs where st': "st' = st\<lparr>pending_input := pending_input st', trace := trace st @ evs\<rparr>"
    and evs: "\<forall>ev \<in> set evs. asked ev"
    using assms by (rule gate_Inr)
  have tr: "trace st' = trace st @ evs" and ms: "module_server st' = module_server st"
    by (subst st', simp)+
  show c: "clean (trace st')" if "clean (trace st)"
    using that evs unfolding tr clean_def by auto
  show "no_server st'" if "no_server st"
    using that c filter_asked [OF evs] unfolding no_server_def tr by simp
  show "one_server st'" if "one_server st"
    using that c filter_asked [OF evs] evs unfolding one_server_def tr ms by auto
qed

lemma try_server_trace:
  "\<exists>ev. trace (try_server e m st) = trace st @ [ev] \<and>
        \<not> declined ev \<and> \<not> dispatch_event ev \<and> \<not> shutdown_event ev \<and>
        (start_event ev \<longrightarrow> module_server (try_server e m st) = Some (attempts st) \<and>
           (\<forall>h. started h ev = (h = attempts st))) \<and>
        (\<not> start_event ev \<longrightarrow> (\<forall>h. \<not> started h ev))"
  by (cases "server_result e (attempts st)") (auto simp: try_server_def Let_def)

lemma try_server_cfg: "trace (st\<lparr>cfg := a\<rparr>) = trace st" "module_server (st\<lparr>cfg := a\<rparr>) = module_server st"
  "attempts (st\<lparr>cfg := a\<rparr>) = attempts st"
  by simp_all

lemma server_step_Inr:
  assumes "server_step e m st = Inr st'"
  shows "(\<not> needs_server m \<longrightarrow> st' = st) \<and>
         (needs_server m \<longrightarrow> (\<exists>a. st' = try_server e m (st\<lparr>cfg := a\<rparr>)))"
  using assms by (auto simp: server_step_def split: if_splits option.splits)

lemma server_step_Inl:
  assumes "server_step e m st = Inl (x, tr)"
  shows "x = Uncaught ''KeyError'' \<and> tr = trace st"
  using assms by (auto simp: server_step_def split: if_splits option.splits)

lemma server_step_clean:
  assumes "server_step e m st = Inr st'" "clean (trace st)"
  shows "clean (trace st')"
proof (cases "needs_server m")
  case False
  then show ?thesis using assms server_step_Inr by blast
next
  case True
  then obtain a where st': "st' = try_server e m (st\<lparr>cfg := a\<rparr>)"
    using assms server_step_Inr by blast
  obtain ev where "trace st' = trace st @ [ev]"
    "\<not> declined ev \<and> \<not> dispatch_event ev \<and> \<not> shutdown_event ev"
    using try_server_trace [of e m "st\<lparr>cfg := a\<rparr>"] unfolding st' by auto
  then show ?thesis using assms(2) unfolding clean_def by auto
qed

lemma server_step_first:
  assumes "server_step e m st = Inr st'" "no_server st"
  shows "one_server st'"
proof (cases "needs_server m")
  case False
  then have "st' = st" using assms server_step_Inr by blast
  then show ?thesis using assms(2) unfolding one_server_def no_server_def
    by (metis filter_False le0 list.size(3) started_start filter_empty_conv)
next
  case True
  then obtain a where st': "st' = try_server e m (st\<lparr>cfg := a\<rparr>)"
    using assms server_step_Inr by blast
  obtain ev where ev: "trace st' = trace st @ [ev]"
    "\<not> declined ev \<and> \<not> dispatch_event ev \<and> \<not> shutdown_event ev"
    "start_event ev \<longrightarrow> module_server st' = Some (attempts st) \<and> (\<forall>h. started h ev = (h = attempts st))"
    "\<not> start_event ev \<longrightarrow> (\<forall>h. \<not> started h ev)"
    using try_server_trace [of e m "st\<lparr>cfg := a\<rparr>"] unfolding st' by auto
  have none: "filter start_event (trace st) = []" and c: "clean (trace st)"
    using assms(2) unfolding no_server_def by auto
  have old: "\<not> started h ev'" if "ev' \<in> set (trace st)" for h ev'
    using none that started_start by (metis filter_empty_conv)
  have "clean (trace st')" using c ev(1,2) unfolding clean_def by auto
  moreover have "length (filter start_event (trace st')) \<le> 1"
    using none ev(1) by simp
  moreover have "\<forall>ev' \<in> set (trace st'). \<forall>h. started h ev' \<longrightarrow> module_server st' = Some h"
    using old ev by auto
  ultimately show ?thesis unfolding one_server_def by blast
qed

lemma load_module_Inl:
  assumes "load_module e n m st = Inl (x, tr)"
  shows "\<exists>evs. tr = trace st @ evs \<and>
           (\<forall>ev \<in> set evs. \<not> dispatch_event ev \<and> \<not> shutdown_event ev) \<and>
           exit_status (Some x) = 1 \<and> ((\<exists>ev \<in> set evs. declined ev) \<longrightarrow> x = Exit 1)"
proof (cases "modules e m")
  case None
  then have "x = Exit 1" "tr = trace st @ []" using assms by (auto simp: load_module_def)
  then show ?thesis by (metis empty_iff list.set(1) exit_status.simps(2))
next
  case (Some md)
  show ?thesis
  proof (cases "opsec_gate e md st")
    case (Inl y)
    then have "opsec_gate e md st = Inl (x, tr)" using assms Some by (simp add: load_module_def)
    then show ?thesis using gate_like_opsec by (elim gate_Inl [rotated]) auto
  next
    case (Inr st1)
    obtain evs1 where st1: "trace st1 = trace st @ evs1" "\<forall>ev \<in> set evs1. asked ev"
      using gate_Inr [OF gate_like_opsec Inr] by (metis select_convs(7) surjective update_convs(7))
    show ?thesis
    proof (cases "multi_host_gate n md st1")
      case (Inl y)
      then have "multi_host_gate n md st1 = Inl (x, tr)"
        using assms Some Inr by (simp add: load_module_def)
      then obtain evs2 where "tr = trace st1 @ evs2"
        "\<forall>ev \<in> set evs2. \<not> dispatch_event ev \<and> \<not> shutdown_event ev"
        "exit_status (Some x) = 1" "(\<exists>ev \<in> set evs2. declined ev) \<longrightarrow> x = Exit 1"
        using gate_like_multi by (elim gate_Inl [rotated]) auto
      then have "tr = trace st @ (evs1 @ evs2) \<and>
           (\<forall>ev \<in> set (evs1 @ evs2). \<not> dispatch_event ev \<and> \<not> shutdown_event ev) \<and>
           exit_status (Some x) = 1 \<and> ((\<exists>ev \<in> set (evs1 @ evs2). declined ev) \<longrightarrow> x = Exit 1)"
        using st1 by auto
      then show ?thesis by blast
    next
      case Inr2: (Inr st2)
      obtain evs2 where st2: "trace st2 = trace st1 @ evs2" "\<forall>ev \<in> set evs2. asked ev"
        using gate_Inr [OF gate_like_multi Inr2] by (metis select_convs(7) surjective update_convs(7))
      have "server_step e md st2 = Inl (x, tr)"
        using assms Some Inr Inr2 by (auto simp: load_module_def split: sum.splits)
      then have "x = Uncaught ''KeyError''" "tr = trace st2" using server_step_Inl by auto
      then have "tr = trace st @ (evs1 @ evs2) \<and>
           (\<forall>ev \<in> set (evs1 @ evs2). \<not> dispatch_event ev \<and> \<not> shutdown_event ev) \<and>
           exit_status (Some x) = 1 \<and> ((\<exists>ev \<in> set (evs1 @ evs2). declined ev) \<longrightarrow> x = Exit 1)"
        using st1 st2 by auto
      then show ?thesis by blast
    qed
  qed
qed

lemma load_module_Inr:
  assumes "load_module e n m st = Inr st'"
  obtains md st1 st2 st3 where "modules e m = Some md" "opsec_gate e md st = Inr st1"
    "multi_host_gate n md st1 = Inr st2" "server_step e md st2 = Inr st3"
    "st' = st3\<lparr>proto_modules := proto_modules st3 @ [md]\<rparr>"
  using assms by (auto simp: load_module_def split: option.splits sum.splits)

lemma proto_modules_update [simp]:
  "clean (trace (st\<lparr>proto_modules := ms\<rparr>)) = clean (trace st)"
  "one_server (st\<lparr>proto_modules := ms\<rparr>) = one_server st"
  "no_server (st\<lparr>proto_modules := ms\<rparr>) = no_server st"
  by (simp_all add: one_server_def no_server_def)

lemma load_module_keeps:
  assumes "load_module e n m st = Inr st'"
  shows "clean (trace st) \<Longrightarrow> clean (trace st')"
    and "no_server st \<Longrightarrow> one_server st'"
    and "\<not> server_name e m \<Longrightarrow> one_server st \<Longrightarrow> one_server st'"
proof -
  obtain md st1 st2 st3 where s: "modules e m = Some md" "opsec_gate e md st = Inr st1"
    "multi_host_gate n md st1 = Inr st2" "server_step e md st2 = Inr st3"
    "st' = st3\<lparr>proto_modules := proto_modules st3 @ [md]\<rparr>"
    using assms by (rule load_module_Inr)
  show "clean (trace st')" if "clean (trace st)"
    using that s gate_keeps(1) [OF gate_like_opsec s(2)] gate_keeps(1) [OF gate_like_multi s(3)]
      server_step_clean [OF s(4)] by simp
  show "one_server st'" if "no_server st"
    using that s gate_keeps(2) [OF gate_like_opsec s(2)] gate_keeps(2) [OF gate_like_multi s(3)]
      server_step_first [OF s(4)] by simp
  show "one_server st'" if "\<not> server_name e m" "one_server st"
  proof -
    have "\<not> needs_server md" using that(1) s(1) by (simp add: server_name_def)
    then have "st3 = st2" using s(4) server_step_Inr by blast
    then show ?thesis
      using that(2) s gate_keeps(3) [OF gate_like_opsec s(2)] gate_keeps(3) [OF gate_like_multi s(3)]
      by simp
  qed
qed

lemma load_module_plain:
  assumes "load_module e n m st = Inr st'" "\<not> server_name e m" "no_server st"
  shows "no_server st'"
proof -
  obtain md st1 st2 st3 where s: "modules e m = Some md" "opsec_gate e md st = Inr st1"
    "multi_host_gate n md st1 = Inr st2" "server_step e md st2 = Inr st3"
    "st' = st3\<lparr>proto_modules := proto_modules st3 @ [md]\<rparr>"
    using assms(1) by (rule load_module_Inr)
  have "\<not> needs_server md" using assms(2) s(1) by (simp add: server_name_def)
  then have "st3 = st2" using s(4) server_step_Inr by blast
  then show ?thesis
    using assms(3) s gate_keeps(2) [OF gate_like_opsec s(2)] gate_keeps(2) [OF gate_like_multi s(3)]
    by simp
qed

lemma load_modules_clean:
  "load_modules e n ms st = Inr st' \<Longrightarrow> clean (trace st) \<Longrightarrow> clean (trace st')"
proof (induction ms arbitrary: st)
  case Nil
  then show ?case by simp
next
  case (Cons m ms)
  then obtain st1 where s: "load_module e n m st = Inr st1" "load_modules e n ms st1 = Inr st'"
    by (auto split: sum.splits)
  then show ?case using Cons load_module_keeps(1) by blast
qed

lemma load_modules_Inl:
  "load_modules e n ms st = Inl (x, tr) \<Longrightarrow> clean (trace st) \<Longrightarrow>
     (\<forall>ev \<in> set tr. \<not> dispatch_event ev \<and> \<not> shutdown_event ev) \<and>
     exit_status (Some x) = 1 \<and> ((\<exists>ev \<in> set tr. declined ev) \<longrightarrow> x = Exit 1)"
proof (induction ms arbitrary: st)
  case Nil
  then show ?case by simp
next
  case (Cons m ms)
  show ?case
  proof (cases "load_module e n m st")
    case (Inl y)
    then have "load_module e n m st = Inl (x, tr)" using Cons.prems(1) by simp
    then obtain evs where "tr = trace st @ evs"
      "\<forall>ev \<in> set evs. \<not> dispatch_event ev \<and> \<not> shutdown_event ev"
      "exit_status (Some x) = 1" "(\<exists>ev \<in> set evs. declined ev) \<longrightarrow> x = Exit 1"
      using load_module_Inl by blast
    then show ?thesis using Cons.prems(2) unfolding clean_def by auto
  next
    case (Inr st1)
    then have "load_modules e n ms st1 = Inl (x, tr)" using Cons.prems(1) by simp
    moreover have "clean (trace st1)" using Inr Cons.prems(2) load_module_keeps(1) by blast
    ultimately show ?thesis by (rule Cons.IH)
  qed
qed

lemma load_modules_unknown:
  "\<exists>m \<in> set ms. modules e m = None \<Longrightarrow> \<exists>x tr. load_modules e n ms st = Inl (x, tr)"
proof (induction ms arbitrary: st)
  case Nil
  then show ?case by simp
next
  case (Cons m ms)
  show ?case
  proof (cases "load_module e n m st")
    case (Inl y)
    then show ?thesis by (cases y) simp
  next
    case (Inr st1)
    then have "modules e m \<noteq> None" by (auto simp: load_module_def split: option.splits)
    then have "\<exists>m \<in> set ms. modules e m = None" using Cons.prems by auto
    then show ?thesis using Cons.IH [of st1] Inr by simp
  qed
qed

lemma load_modules_no_more:
  "load_modules e n ms st = Inr st' \<Longrightarrow> filter (server_name e) ms = [] \<Longrightarrow>
     one_server st \<Longrightarrow> one_server st'"
proof (induction ms arbitrary: st)
  case Nil
  then show ?case by simp
next
  case (Cons m ms)
  then obtain st1 where s: "load_module e n m st = Inr st1" "load_modules e n ms st1 = Inr st'"
    by (auto split: sum.splits)
  have m: "\<not> server_name e m" "filter (server_name e) ms = []"
    using Cons.prems(2) by (auto split: if_splits)
  have "one_server st1" using load_module_keeps(3) [OF s(1) m(1) Cons.prems(3)] .
  then show ?case using Cons.IH [OF s(2) m(2)] by simp
qed

lemma load_modules_one_server:
  "load_modules e n ms st = Inr st' \<Longrightarrow> length (filter (server_name e) ms) \<le> 1 \<Longrightarrow>
     no_server st \<Longrightarrow> one_server st'"
proof (induction ms arbitrary: st)
  case Nil
  then have "st' = st" by simp
  then show ?case using Nil.prems(3) unfolding one_server_def no_server_def
    by (metis filter_False le0 list.size(3) started_start filter_empty_conv)
next
  case (Cons m ms)
  then obtain st1 where s: "load_module e n m st = Inr st1" "load_modules e n ms st1 = Inr st'"
    by (auto split: sum.splits)
  show ?case
  proof (cases "server_name e m")
    case True
    then have "filter (server_name e) ms = []" using Cons.prems(2) by simp
    moreover have "one_server st1" using load_module_keeps(2) [OF s(1) Cons.prems(3)] .
    ultimately show ?thesis using load_modules_no_more [OF s(2)] by simp
  next
    case False
    then have "length (filter (server_name e) ms) \<le> 1" using Cons.prems(2) by simp
    moreover have "no_server st1" using load_module_plain [OF s(1) False Cons.prems(3)] .
    ultimately show ?thesis using Cons.IH [OF s(2)] by simp
  qed
qed

lemma expand_loop_abort:
  "expand_loop xs i = Inl x \<Longrightarrow> exit_status (Some x) = 1"
proof (induction xs i rule: expand_loop.induct)
  case (1 xs i)
  show ?case
  proof (cases "length xs \<le> i")
    case True
    then show ?thesis using "1.prems" by (simp add: expand_loop.simps)
  next
    case lt: False
    show ?thesis
    proof (cases "has_dash (xs ! i)")
      case False
      then have "expand_loop xs (Suc i) = Inl x"
        using "1.prems" lt expand_loop_pass [of i xs] by simp
      then show ?thesis using "1.IH"(1) lt False by blast
    next
      case True
      show ?thesis
      proof (cases "\<exists>s a b. xs ! i = CStr s \<and> range_bounds s = Some (a, b)")
        case True
        then obtain s a b where s: "xs ! i = CStr s" "range_bounds s = Some (a, b)" by blast
        then obtain p q where pq: "split_on (CHR ''-'') s = [p, q]" "py_int p = Some a" "py_int q = Some b"
          by (auto simp: range_bounds_def split: list.splits option.splits)
        have d: "CHR ''-'' \<in> set s" using \<open>has_dash (xs ! i)\<close> s(1) by simp
        have "expand_loop (remove1 (xs ! i) (xs @ map CInt [a..b])) (Suc i) = Inl x"
          using "1.prems" lt s d expand_loop_step [of i xs s a b] by simp
        then show ?thesis
          using "1.IH"(2) [OF lt _ s(1) pq(1) _ _ pq(2) pq(3)] \<open>has_dash (xs ! i)\<close> by simp
      next
        case False
        then show ?thesis
          using "1.prems" lt True
          by (subst (asm) expand_loop.simps)
            (auto simp: range_bounds_def split: cred.splits list.splits option.splits)
      qed
    qed
  qed
qed

lemma expand_cred_ids_abort: "expand_cred_ids xs = Inl x \<Longrightarrow> exit_status (Some x) = 1"
  using expand_loop_abort by (auto simp: expand_cred_ids_def split: if_splits)

lemma prepare_Inl:
  assumes "prepare e a = Inl (x, tr)"
  shows "tr = []" and "\<not> list_modules a \<Longrightarrow> \<not> show_module_options a \<Longrightarrow> exit_status (Some x) = 1"
  using assms expand_cred_ids_abort
  by (auto simp: prepare_def split: option.splits if_splits sum.splits)

lemma prepare_Inr:
  assumes "prepare e a = Inr (a1, proto, ts)"
  shows "module a1 = module a" "ts = build_targets e proto (target a) []" "protocol a = Some proto"
  using assms by (auto simp: prepare_def split: option.splits if_splits sum.splits)

lemma start_run_events:
  "\<forall>ev \<in> set (fst (start_run e a d ts)). dispatch_event ev"
  "EvStartRun \<in> set (fst (start_run e a d ts))"
  by (cases "interrupt e"; auto simp: start_run_def submit_all_map progress_loop_eq)+

lemma dispatch_event_other:
  "dispatch_event ev \<Longrightarrow> \<not> declined ev \<and> \<not> start_event ev \<and> \<not> shutdown_event ev \<and> \<not> started h ev"
  by (cases ev) auto

lemma dispatch_trace:
  "\<exists>evs. snd (dispatch e d ts st) = trace st @ evs @ teardown st \<and>
         (\<forall>ev \<in> set evs. dispatch_event ev) \<and> EvStartRun \<in> set evs"
proof -
  obtain evs r where sr: "start_run e (cfg st) d ts = (evs, r)" by (cases "start_run e (cfg st) d ts")
  then have "snd (dispatch e d ts st) = trace st @ evs @ teardown st"
    by (cases r) (simp_all add: dispatch_def)
  moreover have "(\<forall>ev \<in> set evs. dispatch_event ev) \<and> EvStartRun \<in> set evs"
    using start_run_events [of e "cfg st" d ts] sr by simp
  ultimately show ?thesis by blast
qed

lemma dispatch_exit: "exit_status (fst (dispatch e d ts st)) \<le> 1"
  by (cases "start_run e (cfg st) d ts"; cases "snd (start_run e (cfg st) d ts)")
    (auto simp: dispatch_def)

lemma initial_no_server: "no_server (initial e a)" "clean (trace (initial e a))"
  by (simp_all add: no_server_def clean_def initial_def)

lemma main_cases:
  obtains (early) x where "prepare e a = Inl (x, [])" "main e a = (Some x, [])"
  | (loop) a1 proto ts x tr where "prepare e a = Inr (a1, proto, ts)"
      "load_modules e (length ts) (map py_lower (module a)) (initial e a1) = Inl (x, tr)"
      "main e a = (Some x, tr)"
  | (gate) a1 proto ts st x tr where "prepare e a = Inr (a1, proto, ts)"
      "load_modules e (length ts) (map py_lower (module a)) (initial e a1) = Inr st"
      "ntds_gate st = Inl (x, tr)" "main e a = (Some x, tr)"
  | (run) a1 proto ts st st' where "prepare e a = Inr (a1, proto, ts)"
      "load_modules e (length ts) (map py_lower (module a)) (initial e a1) = Inr st"
      "ntds_gate st = Inr st'" "main e a = dispatch e (Db proto) ts st'"
proof (cases "prepare e a")
  case (Inl y)
  obtain x tr where y: "y = (x, tr)" by (cases y)
  then have "tr = []" using Inl prepare_Inl(1) by blast
  then show ?thesis using early Inl y by (simp add: main_def)
next
  case (Inr y)
  obtain a1 proto ts where y: "y = (a1, proto, ts)" by (cases y)
  have m: "module a1 = module a" using Inr y prepare_Inr(1) by blast
  show ?thesis
  proof (cases "load_modules e (length ts) (map py_lower (module a)) (initial e a1)")
    case (Inl z)
    obtain x tr where "z = (x, tr)" by (cases z)
    then show ?thesis using loop [of a1 proto ts x tr] Inr y m Inl by (simp add: main_def)
  next
    case Inr2: (Inr st)
    show ?thesis
    proof (cases "ntds_gate st")
      case (Inl z)
      obtain x tr where "z = (x, tr)" by (cases z)
      then show ?thesis using gate [of a1 proto ts st x tr] Inr y m Inr2 Inl by (simp add: main_def)
    next
      case Inr3: (Inr st')
      then show ?thesis using run [of a1 proto ts st st'] Inr y m Inr2 by (simp add: main_def)
    qed
  qed
qed

lemma teardown_events:
  "\<forall>ev \<in> set (teardown st). \<not> declined ev \<and> \<not> dispatch_event ev \<and> \<not> start_event ev"
  by (auto simp: teardown_def split: option.splits)

lemma declined_exits:
  assumes "\<exists>ev \<in> set (snd (main e a)). declined ev"
  shows "fst (main e a) = Some (Exit 1) \<and> (\<forall>ev \<in> set (snd (main e a)). \<not> dispatch_event ev)"
proof (cases e a rule: main_cases)
  case (early x)
  then show ?thesis using assms by simp
next
  case (loop a1 proto ts x tr)
  then show ?thesis
    using assms load_modules_Inl [OF loop(2) initial_no_server(2)] by auto
next
  case (gate a1 proto ts st x tr)
  have c: "clean (trace st)" using load_modules_clean [OF gate(2) initial_no_server(2)] .
  obtain evs where "tr = trace st @ evs"
    "\<forall>ev \<in> set evs. \<not> dispatch_event ev \<and> \<not> shutdown_event ev"
    "(\<exists>ev \<in> set evs. declined ev) \<longrightarrow> x = Exit 1"
    using gate_Inl [OF gate_like_ntds gate(3)] by metis
  then show ?thesis using assms gate(4) c unfolding clean_def by auto
next
  case (run a1 proto ts st st')
  have "clean (trace st)" using load_modules_clean [OF run(2) initial_no_server(2)] .
  then have c: "clean (trace st')" using gate_keeps(1) [OF gate_like_ntds run(3)] by simp
  obtain evs where "snd (main e a) = trace st' @ evs @ teardown st'" "\<forall>ev \<in> set evs. dispatch_event ev"
    using dispatch_trace [of e "Db proto" ts st'] run(4) by auto
  then have "\<forall>ev \<in> set (snd (main e a)). \<not> declined ev"
    using c teardown_events [of st'] dispatch_event_other unfolding clean_def by auto
  then show ?thesis using assms by blast
qed

lemma unknown_module_exits:
  assumes "\<not> list_modules a" "\<not> show_module_options a"
    and "\<exists>m \<in> set (module a). modules e (py_lower m) = None"
  shows "exit_status (fst (main e a)) = 1 \<and> (\<forall>ev \<in> set (snd (main e a)). \<not> dispatch_event ev)"
proof -
  have unk: "\<exists>m \<in> set (map py_lower (module a)). modules e m = None"
    using assms(3) by auto
  show ?thesis
  proof (cases e a rule: main_cases)
    case (early x)
    then show ?thesis using prepare_Inl(2) [OF early(1)] assms by simp
  next
    case (loop a1 proto ts x tr)
    then show ?thesis using load_modules_Inl [OF loop(2) initial_no_server(2)] by auto
  next
    case (gate a1 proto ts st x tr)
    then show ?thesis
      using load_modules_unknown [OF unk, of "length ts" "initial e a1"] by simp
  next
    case (run a1 proto ts st st')
    then show ?thesis
      using load_modules_unknown [OF unk, of "length ts" "initial e a1"] by simp
  qed
qed

lemma started_in_trace:
  assumes "one_server st" "ev \<in> set (trace st)" "started h ev"
  shows "module_server st = Some h"
  using assms unfolding one_server_def by blast

lemma filter_none: "\<forall>ev \<in> set evs. \<not> P ev \<Longrightarrow> filter P evs = []"
  by (induction evs) auto

lemma reached_dispatch:
  assumes "EvStartRun \<in> set (snd (main e a))"
  obtains a1 proto ts st st' where "prepare e a = Inr (a1, proto, ts)"
      "load_modules e (length ts) (map py_lower (module a)) (initial e a1) = Inr st"
      "ntds_gate st = Inr st'" "main e a = dispatch e (Db proto) ts st'"
proof (cases e a rule: main_cases)
  case (early x)
  then show ?thesis using assms by simp
next
  case (loop a1 proto ts x tr)
  then show ?thesis
    using assms load_modules_Inl [OF loop(2) initial_no_server(2)] by fastforce
next
  case (gate a1 proto ts st x tr)
  have c: "clean (trace st)" using load_modules_clean [OF gate(2) initial_no_server(2)] .
  obtain evs where "tr = trace st @ evs"
    "\<forall>ev \<in> set evs. \<not> dispatch_event ev \<and> \<not> shutdown_event ev"
    using gate_Inl [OF gate_like_ntds gate(3)] by metis
  then have "\<forall>ev \<in> set tr. \<not> dispatch_event ev" using c unfolding clean_def by auto
  then show ?thesis using assms gate(4) by fastforce
next
  case (run a1 proto ts st st')
  then show ?thesis using that by blast
qed

lemma one_server_run:
  assumes "EvStartRun \<in> set (snd (main e a))"
    and "length (filter (server_name e) (map py_lower (module a))) \<le> 1"
  shows "length (filter start_event (snd (main e a))) \<le> 1 \<and>
         (\<forall>h. (\<exists>ev \<in> set (snd (main e a)). started h ev) \<longrightarrow>
              length (filter (\<lambda>ev. ev = EvServerShutdown h) (snd (main e a))) = 1)"
proof -
  obtain a1 proto ts st st' where r: "prepare e a = Inr (a1, proto, ts)"
      "load_modules e (length ts) (map py_lower (module a)) (initial e a1) = Inr st"
      "ntds_gate st = Inr st'" "main e a = dispatch e (Db proto) ts st'"
    using assms(1) by (rule reached_dispatch)
  have "one_server st"
    using load_modules_one_server [OF r(2) assms(2) initial_no_server(1)] .
  then have one: "one_server st'" using gate_keeps(3) [OF gate_like_ntds r(3)] by simp
  obtain evs where tr: "snd (main e a) = trace st' @ evs @ teardown st'"
    and evs: "\<forall>ev \<in> set evs. dispatch_event ev"
    using dispatch_trace [of e "Db proto" ts st'] r(4) by auto
  have f1: "filter start_event evs = []"
    using evs dispatch_event_other by (intro filter_none) blast
  have f2: "filter start_event (teardown st') = []"
    using teardown_events by (intro filter_none) blast
  have starts: "length (filter start_event (snd (main e a))) \<le> 1"
    using one f1 f2 unfolding tr one_server_def by simp
  have stops: "length (filter (\<lambda>ev. ev = EvServerShutdown h) (snd (main e a))) = 1"
    if "\<exists>ev \<in> set (snd (main e a)). started h ev" for h
  proof -
    from that obtain ev where ev: "ev \<in> set (snd (main e a))" "started h ev" by blast
    have "ev \<notin> set evs" using ev(2) evs dispatch_event_other by blast
    moreover have "ev \<notin> set (teardown st')"
      using ev(2) teardown_events started_start by blast
    ultimately have "ev \<in> set (trace st')" using ev(1) tr by auto
    then have ms: "module_server st' = Some h" using started_in_trace [OF one _ ev(2)] by simp
    have g1: "filter (\<lambda>ev. ev = EvServerShutdown h) (trace st') = []"
      using one unfolding one_server_def clean_def by (intro filter_none) auto
    have g2: "filter (\<lambda>ev. ev = EvServerShutdown h) evs = []"
      using evs by (intro filter_none) auto
    show ?thesis unfolding tr using g1 g2 ms by (simp add: teardown_def)
  qed
  show ?thesis using starts stops by blast
qed

lemma run_web_typo:
  "main example_env (example_args\<lparr>module := [''web'', ''typo'']\<rparr>) =
     (Some (Exit 1), [EvServerStart 0 ''0.0.0.0'' 443 ''https''])"
  by (simp add: main_def prepare_def example_env_def example_args_def expand_cred_ids_def
      initial_def load_module_def web_module_def opsec_gate_def multi_host_gate_def
      server_step_def needs_server_def force_kind_def resolve_port_def port_set_def
      server_port_dict_def try_server_def py_lower_def lower_char_def truthy_def)

lemma run_web_web:
  "filter start_event (snd (main example_env (example_args\<lparr>module := [''web'', ''web'']\<rparr>))) =
     [EvServerStart 0 ''0.0.0.0'' 443 ''https'', EvServerStart 1 ''0.0.0.0'' 443 ''https''] \<and>
   filter shutdown_event (snd (main example_env (example_args\<lparr>module := [''web'', ''web'']\<rparr>))) =
     [EvServerShutdown 1]"
  by (simp add: main_def prepare_def example_env_def example_args_def expand_cred_ids_def
      initial_def load_module_def web_module_def opsec_gate_def multi_host_gate_def
      server_step_def needs_server_def force_kind_def resolve_port_def port_set_def
      server_port_dict_def try_server_def py_lower_def lower_char_def truthy_def
      ntds_gate_def dispatch_def start_run_def teardown_def units_done_def)

lemma run_web_interrupted:
  "main interrupted_env (example_args\<lparr>module := [''web'']\<rparr>) =
     (None,
      [EvServerStart 0 ''0.0.0.0'' 443 ''https'', EvStartRun, EvProgress, EvPool 101, EvAddTask 3,
       EvSubmit (example_args\<lparr>module := [''web''], server_port := Some 443\<rparr>) (Db ''smb'') ''10.0.0.1'',
       EvServerShutdown 0, EvDispose])"
  by (simp add: main_def prepare_def example_env_def example_args_def expand_cred_ids_def
      initial_def load_module_def web_module_def opsec_gate_def multi_host_gate_def
      server_step_def needs_server_def force_kind_def resolve_port_def port_set_def
      server_port_dict_def try_server_def py_lower_def lower_char_def truthy_def
      ntds_gate_def dispatch_def start_run_def teardown_def units_done_def interrupted_env_def)

lemma lower_web: "py_lower ''web'' = ''web''" "py_lower ''typo'' = ''typo''"
  by code_simp+

lemmas run_defs = lower_web
  main_def prepare_def example_env_def example_args_def expand_cred_ids_def
  initial_def load_module_def web_module_def opsec_gate_def multi_host_gate_def
  server_step_def needs_server_def force_kind_def resolve_port_def port_set_def
  server_port_dict_def try_server_def truthy_def
  ntds_gate_def dispatch_def start_run_def teardown_def units_done_def ask_def confirmed_def

text \<open>
  Claim C3, as amended.  In a run that reaches the dispatch and in which at most
  one of the requested names is a module with a hook, at most one listener is
  started, and a listener that was started gets exactly one stop call in the
  teardown, however \<open>start_run\<close> ends: by returning, by an exception or by a stop
  signal.
\<close>

theorem one_listener_per_run:
  "EvStartRun \<in> set (snd (main e a)) \<and>
   length (filter (server_name e) (map py_lower (module a))) \<le> 1 \<longrightarrow>
     length (filter start_event (snd (main e a))) \<le> 1 \<and>
     (\<forall>h. (\<exists>ev \<in> set (snd (main e a)). started h ev) \<longrightarrow>
          length (filter (\<lambda>ev. ev = EvServerShutdown h) (snd (main e a))) = 1)"
  using one_server_run by blast

lemma server_name_web: "filter (server_name interrupted_env) (map py_lower [''web'']) = [''web'']"
  by (simp add: server_name_def interrupted_env_def run_defs)

theorem one_listener_per_run_witness:
  "EvStartRun \<in> set (snd (main interrupted_env
      (example_args\<lparr>module := [''web'']\<rparr>))) \<and>
   length (filter (server_name interrupted_env) (map py_lower [''web''])) \<le> 1 \<and>
   length (filter start_event (snd (main interrupted_env
      (example_args\<lparr>module := [''web'']\<rparr>)))) \<le> 1 \<and>
   started 0 (hd (snd (main interrupted_env
      (example_args\<lparr>module := [''web'']\<rparr>)))) \<and>
   length (filter (\<lambda>ev. ev = EvServerShutdown 0)
     (snd (main interrupted_env
        (example_args\<lparr>module := [''web'']\<rparr>)))) = 1"
  using one_listener_per_run [of interrupted_env
      "example_args\<lparr>module := [''web'']\<rparr>"]
  by (simp add: run_web_interrupted server_name_web)

text \<open>
  The claim as stated fails twice.  With the module \<open>web\<close> followed by a name the
  loader does not know, the listener is up when the run ends by \<open>exit(1)\<close>, and
  nothing stops it.  With \<open>web\<close> requested twice, and servers that come up each
  time, two listeners are started and only the second is stopped.
\<close>

theorem listener_not_stopped_counterexample:
  "main example_env (example_args\<lparr>module := [''web'', ''typo'']\<rparr>) =
     (Some (Exit 1), [EvServerStart 0 ''0.0.0.0'' 443 ''https'']) \<and>
   filter start_event (snd (main example_env (example_args\<lparr>module := [''web'', ''web'']\<rparr>))) =
     [EvServerStart 0 ''0.0.0.0'' 443 ''https'', EvServerStart 1 ''0.0.0.0'' 443 ''https''] \<and>
   filter shutdown_event (snd (main example_env (example_args\<lparr>module := [''web'', ''web'']\<rparr>))) =
     [EvServerShutdown 1]"
  using run_web_typo run_web_web by simp

text \<open>
  Claim C4.  For a module that is not opsec safe: with \<open>ignore_opsec\<close> set the gate
  lets the run go on, asking nothing and reading nothing; without it the operator
  is asked, and an answer other than \<open>y\<close>, \<open>yes\<close> or the empty line (in any case of
  letters) ends the run by \<open>exit(1)\<close>.  For a module that is not fit for several
  hosts and more than one target the operator is asked in the same way; with one
  target or none nothing is asked.  A gate that ends the run ends the module loop
  at that module, and a run in which an answer was declined ends by \<open>exit(1)\<close> with
  no event of the dispatch.
\<close>

theorem safety_gate:
  "(\<not> opsec_safe m \<and> ignore_opsec e \<longrightarrow> opsec_gate e m st = Inr st) \<and>
   (\<not> opsec_safe m \<and> \<not> ignore_opsec e \<and> pending_input st = ans # rest \<longrightarrow>
      opsec_gate e m st =
        (if confirmed ans
         then Inr (st\<lparr>pending_input := rest,
                 trace := trace st @ [EvPrompt (OpsecPrompt (mod_name m)), EvAnswer ans]\<rparr>)
         else Inl (Exit 1, trace st @ [EvPrompt (OpsecPrompt (mod_name m)), EvAnswer ans]))) \<and>
   (\<not> multiple_hosts m \<and> 1 < n \<and> pending_input st = ans # rest \<longrightarrow>
      multi_host_gate n m st =
        (if confirmed ans
         then Inr (st\<lparr>pending_input := rest,
                 trace := trace st @ [EvPrompt (MultiHostPrompt (mod_name m)), EvAnswer ans]\<rparr>)
         else Inl (Exit 1, trace st @ [EvPrompt (MultiHostPrompt (mod_name m)), EvAnswer ans]))) \<and>
   (n \<le> 1 \<longrightarrow> multi_host_gate n m st = Inr st) \<and>
   confirmed ans = (py_lower ans = ''y'' \<or> py_lower ans = ''yes'' \<or> py_lower ans = []) \<and>
   (modules e name = Some m \<and>
    (opsec_gate e m st = Inl x \<or>
     (\<exists>st1. opsec_gate e m st = Inr st1 \<and> multi_host_gate n m st1 = Inl x)) \<longrightarrow>
      load_modules e n (name # names) st = Inl x) \<and>
   ((\<exists>ev \<in> set (snd (main e a)). declined ev) \<longrightarrow>
      fst (main e a) = Some (Exit 1) \<and> (\<forall>ev \<in> set (snd (main e a)). \<not> dispatch_event ev))"
proof (intro conjI impI)
  assume "\<exists>ev \<in> set (snd (main e a)). declined ev"
  then show "fst (main e a) = Some (Exit 1)" "\<forall>ev \<in> set (snd (main e a)). \<not> dispatch_event ev"
    using declined_exits by blast+
next
  assume "modules e name = Some m \<and>
    (opsec_gate e m st = Inl x \<or>
     (\<exists>st1. opsec_gate e m st = Inr st1 \<and> multi_host_gate n m st1 = Inl x))"
  then show "load_modules e n (name # names) st = Inl x"
    by (auto simp: load_module_def)
qed (auto simp: opsec_gate_def multi_host_gate_def ask_def confirmed_def)

lemma lower_examples:
  "py_lower ''Loud'' = ''loud''" "py_lower ''Typo'' = ''typo''" "py_lower ''n'' = ''n''"
  by code_simp+

lemmas run_defs2 = lower_examples run_defs loud_env_def loud_module_def

lemma run_loud_declined:
  "main loud_env (example_args\<lparr>module := [''Loud'']\<rparr>) =
     (Some (Exit 1), [EvPrompt (OpsecPrompt ''loud''), EvAnswer ''n''])"
  by (simp add: run_defs2)

lemma gate_loud:
  "opsec_gate loud_env loud_module (initial loud_env example_args) =
     Inl (Exit 1, [EvPrompt (OpsecPrompt ''loud''), EvAnswer ''n''])"
  "opsec_gate (loud_env\<lparr>ignore_opsec := True\<rparr>) loud_module (initial loud_env example_args) =
     Inr (initial loud_env example_args)"
  "multi_host_gate 3 loud_module (initial loud_env example_args) =
     Inl (Exit 1, [EvPrompt (MultiHostPrompt ''loud''), EvAnswer ''n''])"
  "multi_host_gate 1 loud_module (initial loud_env example_args) = Inr (initial loud_env example_args)"
  by (simp_all add: run_defs2)

theorem safety_gate_witness:
  "\<not> opsec_safe loud_module \<and> \<not> multiple_hosts loud_module \<and> \<not> ignore_opsec loud_env \<and>
   pending_input (initial loud_env example_args) = [''n''] \<and> \<not> confirmed ''n'' \<and>
   opsec_gate (loud_env\<lparr>ignore_opsec := True\<rparr>) loud_module (initial loud_env example_args) =
     Inr (initial loud_env example_args) \<and>
   opsec_gate loud_env loud_module (initial loud_env example_args) =
     Inl (Exit 1, [EvPrompt (OpsecPrompt ''loud''), EvAnswer ''n'']) \<and>
   multi_host_gate 3 loud_module (initial loud_env example_args) =
     Inl (Exit 1, [EvPrompt (MultiHostPrompt ''loud''), EvAnswer ''n'']) \<and>
   multi_host_gate 1 loud_module (initial loud_env example_args) = Inr (initial loud_env example_args) \<and>
   load_modules loud_env 3 [''loud'', ''web''] (initial loud_env example_args) =
     Inl (Exit 1, [EvPrompt (OpsecPrompt ''loud''), EvAnswer ''n'']) \<and>
   declined (EvAnswer ''n'') \<and>
   main loud_env (example_args\<lparr>module := [''Loud'']\<rparr>) =
     (Some (Exit 1), [EvPrompt (OpsecPrompt ''loud''), EvAnswer ''n''])"
  using
    safety_gate [where m = loud_module and e = "loud_env\<lparr>ignore_opsec := True\<rparr>"
      and st = "initial loud_env example_args" and n = 1 and ans = "''n''"]
    safety_gate [where m = loud_module and e = loud_env
      and st = "initial loud_env example_args" and n = 3 and ans = "''n''" and rest = "[]"
      and name = "''loud''" and names = "[''web'']"
      and x = "(Exit 1, [EvPrompt (OpsecPrompt ''loud''), EvAnswer ''n''])"
      and a = "example_args\<lparr>module := [''Loud'']\<rparr>"]
  by (simp add: gate_loud run_loud_declined) (simp add: run_defs2)

lemma malformed_cred_exits:
  assumes "\<forall>x \<in> set P. \<not> has_dash x" "CHR ''-'' \<in> set t"
    and "split_on (CHR ''-'') t = [p, q]" "py_int p = None \<or> py_int q = None"
    and "cred_id a = P @ CStr t # R"
  shows "main e a = (Some (Exit 1), [])"
proof -
  have "expand_cred_ids (cred_id a) = Inl (Exit 1)"
    using expand_loop_malformed [OF assms(1-4), of R] assms(5) by (simp add: expand_cred_ids_def)
  then have "prepare e a = Inl (Exit 1, [])"
    by (auto simp: prepare_def split: option.splits)
  then show ?thesis by (simp add: main_def)
qed

text \<open>
  Claim C6, as amended.  The process ends with status 1 and without any event of
  the dispatch when: the protocol is missing; the protocol is \<open>ssh\<close> with a key
  file and no password; the Kerberos cache is asked for and \<open>KRB5CCNAME\<close> is not
  set; a range expression with an endpoint that is not an integer is reached by
  the expansion loop after elements without a dash; outside the two listing
  modes, a requested module name is, in lower case, unknown to the loader; a
  question is answered with something that does not count as a yes.
\<close>

theorem exits_with_one:
  "(\<not> truthy (protocol a) \<longrightarrow> main e a = (Some (Exit 1), [])) \<and>
   (protocol a = Some ''ssh'' \<and> truthy (key_file a) \<and> password a = [] \<longrightarrow>
      main e a = (Some (Exit 1), [])) \<and>
   (use_kcache a \<and> \<not> truthy (krb5ccname e) \<longrightarrow> main e a = (Some (Exit 1), [])) \<and>
   ((\<forall>x \<in> set P. \<not> has_dash x) \<and> CHR ''-'' \<in> set t \<and> split_on (CHR ''-'') t = [p, q] \<and>
    (py_int p = None \<or> py_int q = None) \<and> cred_id a = P @ CStr t # R \<longrightarrow>
      main e a = (Some (Exit 1), [])) \<and>
   (\<not> list_modules a \<and> \<not> show_module_options a \<and>
    (\<exists>m \<in> set (module a). modules e (py_lower m) = None) \<longrightarrow>
      exit_status (fst (main e a)) = 1 \<and> (\<forall>ev \<in> set (snd (main e a)). \<not> dispatch_event ev)) \<and>
   ((\<exists>ev \<in> set (snd (main e a)). declined ev) \<longrightarrow>
      exit_status (fst (main e a)) = 1 \<and> (\<forall>ev \<in> set (snd (main e a)). \<not> dispatch_event ev))"
proof (intro conjI impI)
  assume "\<not> truthy (protocol a)"
  then show "main e a = (Some (Exit 1), [])"
    by (auto simp: main_def prepare_def truthy_def split: option.splits)
next
  assume "protocol a = Some ''ssh'' \<and> truthy (key_file a) \<and> password a = []"
  then show "main e a = (Some (Exit 1), [])"
    by (simp add: main_def prepare_def)
next
  assume "use_kcache a \<and> \<not> truthy (krb5ccname e)"
  then show "main e a = (Some (Exit 1), [])"
    by (auto simp: main_def prepare_def split: option.splits)
next
  assume "(\<forall>x \<in> set P. \<not> has_dash x) \<and> CHR ''-'' \<in> set t \<and> split_on (CHR ''-'') t = [p, q] \<and>
    (py_int p = None \<or> py_int q = None) \<and> cred_id a = P @ CStr t # R"
  then show "main e a = (Some (Exit 1), [])"
    using malformed_cred_exits by blast
next
  assume h: "\<not> list_modules a \<and> \<not> show_module_options a \<and>
    (\<exists>m \<in> set (module a). modules e (py_lower m) = None)"
  then show "exit_status (fst (main e a)) = 1" "\<forall>ev \<in> set (snd (main e a)). \<not> dispatch_event ev"
    using unknown_module_exits [of a e] by blast+
next
  assume h: "\<exists>ev \<in> set (snd (main e a)). declined ev"
  then show "exit_status (fst (main e a)) = 1" "\<forall>ev \<in> set (snd (main e a)). \<not> dispatch_event ev"
    using declined_exits [of e a] by auto
qed

lemma run_early:
  "main example_env (example_args\<lparr>protocol := None\<rparr>) = (Some (Exit 1), [])"
  "main example_env (example_args\<lparr>protocol := Some ''ssh'', key_file := Some ''id_rsa''\<rparr>) =
     (Some (Exit 1), [])"
  "main example_env (example_args\<lparr>use_kcache := True\<rparr>) = (Some (Exit 1), [])"
  by (simp_all add: run_defs2)

lemma run_typo:
  "main example_env (example_args\<lparr>module := [''Typo'']\<rparr>) = (Some (Exit 1), [])"
  by (simp add: run_defs2)

theorem exits_with_one_witness:
  "\<not> truthy (protocol (example_args\<lparr>protocol := None\<rparr>)) \<and>
   main example_env (example_args\<lparr>protocol := None\<rparr>) = (Some (Exit 1), []) \<and>
   truthy (key_file (example_args\<lparr>protocol := Some ''ssh'', key_file := Some ''id_rsa''\<rparr>)) \<and>
   main example_env (example_args\<lparr>protocol := Some ''ssh'', key_file := Some ''id_rsa''\<rparr>) =
     (Some (Exit 1), []) \<and>
   \<not> truthy (krb5ccname example_env) \<and>
   main example_env (example_args\<lparr>use_kcache := True\<rparr>) = (Some (Exit 1), []) \<and>
   split_on (CHR ''-'') ''x-2'' = [''x'', ''2''] \<and> py_int ''x'' = None \<and>
   main example_env (example_args\<lparr>cred_id := [CStr ''9'', CStr ''x-2'']\<rparr>) = (Some (Exit 1), []) \<and>
   modules example_env (py_lower ''Typo'') = None \<and>
   exit_status (fst (main example_env (example_args\<lparr>module := [''Typo'']\<rparr>))) = 1 \<and>
   declined (EvAnswer ''n'') \<and>
   exit_status (fst (main loud_env (example_args\<lparr>module := [''Loud'']\<rparr>))) = 1"
  using
    exits_with_one [where a = "example_args\<lparr>protocol := None\<rparr>" and e = example_env]
    exits_with_one [where a = "example_args\<lparr>protocol := Some ''ssh'', key_file := Some ''id_rsa''\<rparr>"
      and e = example_env]
    exits_with_one [where a = "example_args\<lparr>use_kcache := True\<rparr>" and e = example_env]
    exits_with_one [where a = "example_args\<lparr>cred_id := [CStr ''9'', CStr ''x-2'']\<rparr>"
      and e = example_env and P = "[CStr ''9'']" and t = "''x-2''" and p = "''x''" and q = "''2''"
      and R = "[]"]
    exits_with_one [where a = "example_args\<lparr>module := [''Typo'']\<rparr>" and e = example_env]
    exits_with_one [where a = "example_args\<lparr>module := [''Loud'']\<rparr>" and e = loud_env]
  by (simp add: run_early run_typo run_loud_declined py_int_x) (simp add: run_defs2)

text \<open>The claim as stated fails for a range whose first endpoint is larger than the
  second, which the spec counts as malformed: the run goes on to the dispatch,
  submits the three targets and returns.\<close>

theorem reversed_range_runs_counterexample:
  "range_bounds ''5-3'' = Some (5, 3) \<and>
   fst (main example_env (example_args\<lparr>cred_id := [CStr ''5-3'']\<rparr>)) = None \<and>
   length (filter submit_event (snd (main example_env (example_args\<lparr>cred_id := [CStr ''5-3'']\<rparr>)))) = 3"
proof -
  have "expand_cred_ids [CStr ''5-3''] = Inr []" by code_simp
  then show ?thesis
    by (simp add: range_bounds_5_3 run_defs2 del: expand_cred_ids_def)
qed

text \<open>
  Claim C7, as amended.  For a module with one of the two hooks, at its turn in the
  loop: the server kind is the module's \<open>required_server\<close> when it has one, and
  otherwise the kind that \<open>args.server\<close> holds at that point; when \<open>args.server_port\<close>
  holds no port at that point, the port is the table's entry for that kind (80 for
  \<open>http\<close>, 443 for \<open>https\<close>, 445 for \<open>smb\<close>), and a port that is set, by the operator
  or for an earlier module, is kept; the server step goes on whatever happens to
  the server, with the listener's start recorded when it came up and the error
  logged for the module when it did not; the module is attached all the same.
\<close>

theorem module_server_kind_and_port:
  "(needs_server m \<and> server_step e m st = Inr st' \<longrightarrow>
      server (cfg st') = (case required_server m of Some k \<Rightarrow> k | None \<Rightarrow> server (cfg st)) \<and>
      (\<not> port_set (server_port (cfg st)) \<longrightarrow>
         server_port (cfg st') = server_port_dict (server (cfg st')) \<and>
         server_port (cfg st') \<noteq> None) \<and>
      (port_set (server_port (cfg st)) \<longrightarrow> server_port (cfg st') = server_port (cfg st)) \<and>
      (server_result e (attempts st) = SrvStarted \<longrightarrow>
         trace st' = trace st @
           [EvServerStart (attempts st) (server_host (cfg st))
              (case server_port (cfg st') of Some p \<Rightarrow> p | None \<Rightarrow> 0) (server (cfg st'))]) \<and>
      (server_result e (attempts st) \<noteq> SrvStarted \<longrightarrow>
         trace st' = trace st @ [EvServerError (mod_name m)])) \<and>
   (needs_server m \<and>
    (port_set (server_port (cfg st)) \<or>
     server_port_dict (case required_server m of Some k \<Rightarrow> k | None \<Rightarrow> server (cfg st)) \<noteq> None) \<longrightarrow>
      (\<exists>st'. server_step e m st = Inr st')) \<and>
   server_port_dict ''http'' = Some 80 \<and> server_port_dict ''https'' = Some 443 \<and>
   server_port_dict ''smb'' = Some 445 \<and>
   (modules e name = Some m \<and> opsec_safe m \<and> multiple_hosts m \<and> server_step e m st = Inr st' \<longrightarrow>
      load_module e n name st = Inr (st'\<lparr>proto_modules := proto_modules st' @ [m]\<rparr>))"
proof (intro conjI impI)
  assume h: "needs_server m \<and> server_step e m st = Inr st'"
  then obtain a where a: "resolve_port (force_kind m (cfg st)) = Some a"
    and st': "st' = try_server e m (st\<lparr>cfg := a\<rparr>)"
    by (auto simp: server_step_def split: option.splits)
  have cfg: "cfg st' = a"
    unfolding st' by (cases "server_result e (attempts st)") (simp_all add: try_server_def Let_def)
  have kind: "server a = (case required_server m of Some k \<Rightarrow> k | None \<Rightarrow> server (cfg st))"
    using a by (auto simp: resolve_port_def force_kind_def split: if_splits option.splits)
  have port0: "server_port (force_kind m (cfg st)) = server_port (cfg st)"
    by (simp add: force_kind_def split: option.splits)
  show "server (cfg st') = (case required_server m of Some k \<Rightarrow> k | None \<Rightarrow> server (cfg st))"
    using cfg kind by simp
  show "server_port (cfg st') = server_port_dict (server (cfg st'))"
    if "\<not> port_set (server_port (cfg st))"
    using that a port0 unfolding cfg by (auto simp: resolve_port_def split: option.splits)
  show "server_port (cfg st') \<noteq> None" if "\<not> port_set (server_port (cfg st))"
    using that a port0 unfolding cfg by (auto simp: resolve_port_def split: option.splits)
  show "server_port (cfg st') = server_port (cfg st)" if "port_set (server_port (cfg st))"
    using that a port0 unfolding cfg by (auto simp: resolve_port_def split: option.splits)
  have host: "server_host a = server_host (cfg st)"
    using a by (auto simp: resolve_port_def force_kind_def split: if_splits option.splits)
  show "trace st' = trace st @
           [EvServerStart (attempts st) (server_host (cfg st))
              (case server_port (cfg st') of Some p \<Rightarrow> p | None \<Rightarrow> 0) (server (cfg st'))]"
    if "server_result e (attempts st) = SrvStarted"
    using that host unfolding cfg unfolding st' by (simp add: try_server_def Let_def)
  show "trace st' = trace st @ [EvServerError (mod_name m)]"
    if "server_result e (attempts st) \<noteq> SrvStarted"
    using that unfolding st'
    by (cases "server_result e (attempts st)") (simp_all add: try_server_def Let_def)
next
  assume "needs_server m \<and>
    (port_set (server_port (cfg st)) \<or>
     server_port_dict (case required_server m of Some k \<Rightarrow> k | None \<Rightarrow> server (cfg st)) \<noteq> None)"
  then show "\<exists>st'. server_step e m st = Inr st'"
    by (auto simp: server_step_def resolve_port_def force_kind_def split: option.splits)
next
  assume "modules e name = Some m \<and> opsec_safe m \<and> multiple_hosts m \<and> server_step e m st = Inr st'"
  then show "load_module e n name st = Inr (st'\<lparr>proto_modules := proto_modules st' @ [m]\<rparr>)"
    by (simp add: load_module_def opsec_gate_def multi_host_gate_def)
qed (simp_all add: server_port_dict_def)

lemmas run_defs3 = run_defs forcing_module_def failing_env_def

lemma server_step_web:
  "server_step example_env web_module (initial example_env example_args) = Inr web_started"
  by (simp add: run_defs3 web_started_def)

lemma server_step_relay:
  "server_step failing_env forcing_module (initial failing_env example_args) = Inr relay_failed"
  by (simp add: run_defs3 relay_failed_def)

theorem module_server_kind_and_port_witness:
  "needs_server web_module \<and> needs_server forcing_module \<and>
   required_server web_module = None \<and> required_server forcing_module = Some ''smb'' \<and>
   \<not> port_set (server_port (cfg (initial example_env example_args))) \<and>
   server_result example_env 0 = SrvStarted \<and> server_result failing_env 0 \<noteq> SrvStarted \<and>
   server_step example_env web_module (initial example_env example_args) = Inr web_started \<and>
   server (cfg web_started) = ''https'' \<and> server_port (cfg web_started) = Some 443 \<and>
   trace web_started = [EvServerStart 0 ''0.0.0.0'' 443 ''https''] \<and>
   server_step failing_env forcing_module (initial failing_env example_args) = Inr relay_failed \<and>
   server (cfg relay_failed) = ''smb'' \<and> server_port (cfg relay_failed) = Some 445 \<and>
   trace relay_failed = [EvServerError ''relay''] \<and>
   modules example_env ''web'' = Some web_module \<and> opsec_safe web_module \<and> multiple_hosts web_module \<and>
   load_module example_env 3 ''web'' (initial example_env example_args) =
     Inr (web_started\<lparr>proto_modules := proto_modules web_started @ [web_module]\<rparr>)"
proof -
  have w: "needs_server web_module" "required_server web_module = None"
    "opsec_safe web_module" "multiple_hosts web_module"
    by (simp_all add: needs_server_def web_module_def)
  have f: "needs_server forcing_module" "required_server forcing_module = Some ''smb''"
    by (simp_all add: needs_server_def web_module_def forcing_module_def)
  have i: "\<not> port_set (server_port (cfg (initial example_env example_args)))"
    "\<not> port_set (server_port (cfg (initial failing_env example_args)))"
    "server (cfg (initial example_env example_args)) = ''https''"
    "attempts (initial example_env example_args) = 0" "attempts (initial failing_env example_args) = 0"
    "trace (initial example_env example_args) = []" "trace (initial failing_env example_args) = []"
    "server_host (cfg (initial example_env example_args)) = ''0.0.0.0''"
    by (simp_all add: initial_def example_args_def port_set_def)
  have r: "server_result example_env 0 = SrvStarted" "server_result failing_env 0 \<noteq> SrvStarted"
    "modules example_env ''web'' = Some web_module"
    by (simp_all add: example_env_def failing_env_def)
  note T1 = module_server_kind_and_port [where m = web_module and e = example_env
      and st = "initial example_env example_args" and st' = web_started and name = "''web''" and n = 3]
  note T2 = module_server_kind_and_port [where m = forcing_module and e = failing_env
      and st = "initial failing_env example_args" and st' = relay_failed]
  note A1 = T1 [THEN conjunct1, rule_format, OF conjI [OF w(1) server_step_web]]
  note A2 = T2 [THEN conjunct1, rule_format, OF conjI [OF f(1) server_step_relay]]
  have k1: "server (cfg web_started) = ''https''"
    using A1 [THEN conjunct1] by (simp add: w i)
  have p1: "server_port (cfg web_started) = Some 443"
    using A1 [THEN conjunct2, THEN conjunct1, rule_format, OF i(1)] k1
    by (simp add: server_port_dict_def)
  have t1: "trace web_started = [EvServerStart 0 ''0.0.0.0'' 443 ''https'']"
    using A1 [THEN conjunct2, THEN conjunct2, THEN conjunct2, THEN conjunct1, rule_format] r(1) i k1 p1
    by simp
  have k2: "server (cfg relay_failed) = ''smb''"
    using A2 [THEN conjunct1] by (simp add: f)
  have p2: "server_port (cfg relay_failed) = Some 445"
    using A2 [THEN conjunct2, THEN conjunct1, rule_format, OF i(2)] k2
    by (simp add: server_port_dict_def)
  have t2: "trace relay_failed = [EvServerError ''relay'']"
    using A2 [THEN conjunct2, THEN conjunct2, THEN conjunct2, THEN conjunct2, rule_format] r(2) i
    by (simp add: forcing_module_def)
  have l: "load_module example_env 3 ''web'' (initial example_env example_args) =
     Inr (web_started\<lparr>proto_modules := proto_modules web_started @ [web_module]\<rparr>)"
    using T1 [THEN conjunct2, THEN conjunct2, THEN conjunct2, THEN conjunct2, THEN conjunct2]
      r(3) w(3,4) server_step_web by blast
  show ?thesis
    using w f i(1) r server_step_web server_step_relay k1 p1 t1 k2 p2 t2 l by blast
qed

lemma lower_relay: "py_lower ''relay'' = ''relay''" "py_lower ''hook'' = ''hook''"
  by code_simp+

text \<open>
  The claim as stated fails for a second module with a hook.  The operator set no
  port and declared the kind \<open>https\<close>.  After a module that forces \<open>smb\<close>, a module that
  forces \<open>http\<close> gets the port 445 and not the table's 80; and after the module
  \<open>web\<close>, a second one gets the port assigned for the first.
\<close>

theorem second_module_port_counterexample:
  "server_port example_args = None \<and> server example_args = ''https'' \<and>
   required_server http_module = Some ''http'' \<and> server_port_dict ''http'' = Some 80 \<and>
   filter start_event (snd (main two_kinds_env (example_args\<lparr>module := [''relay'', ''hook'']\<rparr>))) =
     [EvServerStart 0 ''0.0.0.0'' 445 ''smb'', EvServerStart 1 ''0.0.0.0'' 445 ''http'']"
  by (simp add: run_defs3 lower_relay http_module_def two_kinds_env_def)

section \<open>The credential ids in the whole run\<close>

text \<open>
  Claim C2, as amended.  For a credential-id list in which no element with a dash
  directly follows another one, and whose elements with a dash all have two
  integer endpoints, the expansion removes every range expression and appends,
  for each expression \<open>a-b\<close> in turn, exactly the integers \<open>a, a+1, \<dots>, b\<close>; these are
  no integers at all when \<open>a > b\<close>, and the run does not abort for such an
  expression.  A range expression with an endpoint that is not an integer, reached
  by the loop after elements without a dash, ends the run by \<open>exit(1)\<close>, with no
  event at all before it.
\<close>

theorem cred_id_expansion:
  "(no_adjacent xs \<and> (\<forall>x \<in> set xs. has_dash x \<longrightarrow> well_formed x) \<longrightarrow>
      expand_cred_ids xs =
        Inr (filter (\<lambda>x. \<not> has_dash x) xs @ concat (map range_ints (filter has_dash xs))))
   \<and> (range_bounds s = Some (a, b) \<longrightarrow>
        range_ints (CStr s) = map CInt [a..b] \<and> set [a..b] = {a..b} \<and>
        distinct [a..b] \<and> sorted [a..b])
   \<and> ((\<forall>x \<in> set P. \<not> has_dash x) \<and> CHR ''-'' \<in> set t \<and>
        split_on (CHR ''-'') t = [p, q] \<and> (py_int p = None \<or> py_int q = None) \<longrightarrow>
        expand_cred_ids (P @ CStr t # R) = Inl (Exit 1) \<and>
        (cred_id c = P @ CStr t # R \<longrightarrow> main e c = (Some (Exit 1), [])))"
proof (intro conjI impI)
  assume h: "no_adjacent xs \<and> (\<forall>x \<in> set xs. has_dash x \<longrightarrow> well_formed x)"
  have "expand_loop ([] @ xs @ []) (length ([] :: cred list)) =
      Inr ([] @ filter (\<lambda>x. \<not> has_dash x) xs @ [] @ concat (map range_ints (filter has_dash xs)))"
    using h by (intro expand_loop_nonadj) simp_all
  then show "expand_cred_ids xs =
      Inr (filter (\<lambda>x. \<not> has_dash x) xs @ concat (map range_ints (filter has_dash xs)))"
    by (simp add: expand_cred_ids_def)
next
  assume "range_bounds s = Some (a, b)"
  then show "range_ints (CStr s) = map CInt [a..b]" by simp
next
  assume "(\<forall>x \<in> set P. \<not> has_dash x) \<and> CHR ''-'' \<in> set t \<and>
        split_on (CHR ''-'') t = [p, q] \<and> (py_int p = None \<or> py_int q = None)"
  then show "expand_cred_ids (P @ CStr t # R) = Inl (Exit 1)"
    using expand_loop_malformed [of P t p q R] by (simp add: expand_cred_ids_def)
next
  assume "(\<forall>x \<in> set P. \<not> has_dash x) \<and> CHR ''-'' \<in> set t \<and>
        split_on (CHR ''-'') t = [p, q] \<and> (py_int p = None \<or> py_int q = None)"
    and "cred_id c = P @ CStr t # R"
  then show "main e c = (Some (Exit 1), [])"
    using malformed_cred_exits [of P t p q c R e] by blast
qed simp_all

theorem cred_id_expansion_witness:
  "no_adjacent [CStr ''5-7'', CStr ''9''] \<and> well_formed (CStr ''5-7'') \<and>
   expand_cred_ids [CStr ''5-7'', CStr ''9''] = Inr [CStr ''9'', CInt 5, CInt 6, CInt 7] \<and>
   range_bounds ''5-7'' = Some (5, 7) \<and>
   range_ints (CStr ''5-7'') = [CInt 5, CInt 6, CInt 7] \<and>
   \<not> has_dash (CStr ''9'') \<and> CHR ''-'' \<in> set ''x-2'' \<and>
   split_on (CHR ''-'') ''x-2'' = [''x'', ''2''] \<and> py_int ''x'' = None \<and>
   expand_cred_ids ([CStr ''9''] @ CStr ''x-2'' # [CStr ''4'']) = Inl (Exit 1) \<and>
   main example_env (example_args\<lparr>cred_id := [CStr ''9'', CStr ''x-2'', CStr ''4'']\<rparr>) =
     (Some (Exit 1), [])"
  using cred_id_expansion [where xs = "[CStr ''5-7'', CStr ''9'']" and s = "''5-7''" and a = 5
      and b = 7 and P = "[CStr ''9'']" and t = "''x-2''" and p = "''x''" and q = "''2''"
      and R = "[CStr ''4'']" and e = example_env
      and c = "example_args\<lparr>cred_id := [CStr ''9'', CStr ''x-2'', CStr ''4'']\<rparr>"]
  by (simp add: range_bounds_5_7 upto_5_7 py_int_x)

text \<open>The claim as stated fails: the expression \<open>5-3\<close> has integer endpoints with the
  first larger than the second, and the expansion ends normally with it removed.\<close>

theorem reversed_range_counterexample:
  "range_bounds ''5-3'' = Some (5, 3) \<and> expand_cred_ids [CStr ''5-3''] = Inr []"
  by code_simp

end
